theory Spec2Isabelle
  imports Main "HOL-Library.Log_Nat" "HOL-Library.Multiset"
begin

section \<open>Go's \<open>float64\<close>: IEEE 754 binary64 with round-to-nearest-even\<close>

text \<open>
  Every number the program handles is a Go \<open>float64\<close>. The aggregator adds such
  values, converts \<open>len(w)\<close> to one and divides by it; two adapters add the constant
  \<open>273.15\<close>. A \<open>float64\<close> is modelled by its decoded fields: \<open>Finite s m e\<close> is
  the value \<open>(-1)^s * m * 2^e\<close> in the canonical form of the format
  (\<open>0 \<le> m < 2^53\<close>, \<open>-1074 \<le> e \<le> 971\<close>, and \<open>m \<ge> 2^52\<close> unless \<open>e = -1074\<close>),
  \<open>Infinity s\<close> is the infinity of sign \<open>s\<close>, and \<open>NaN\<close> stands for every NaN.
  The sign \<open>True\<close> is the negative one.
\<close>

datatype float64 = Finite bool int int | Infinity bool | NaN

definition fzero :: float64 where
  "fzero = Finite False 0 (-1074)"

definition canonical :: "float64 \<Rightarrow> bool" where
  "canonical x =
     (case x of
        Finite s m e \<Rightarrow>
          0 \<le> m \<and> m < 2 ^ 53 \<and> -1074 \<le> e \<and> e \<le> 971 \<and> (2 ^ 52 \<le> m \<or> e = -1074)
      | _ \<Rightarrow> True)"

text \<open>\<open>m / 2^k\<close> rounded to the nearest integer, ties to the even one.\<close>

definition round_half_even :: "int \<Rightarrow> nat \<Rightarrow> int" where
  "round_half_even m k =
     (let q = m div 2 ^ k; r = m mod 2 ^ k
      in if 2 * r > 2 ^ k \<or> (2 * r = 2 ^ k \<and> odd q) then q + 1 else q)"

text \<open>
  The float64 nearest to \<open>(-1)^s * m * 2^e\<close> for an integer \<open>m \<ge> 0\<close>: the mantissa
  is brought to 53 bits (fewer in the subnormal range, where the exponent stays at
  \<open>-1074\<close>), a carry out of the rounding renormalises, and a result beyond the largest
  finite value is an infinity.
\<close>

definition round_float64 :: "bool \<Rightarrow> int \<Rightarrow> int \<Rightarrow> float64" where
  "round_float64 s m e =
     (if m = 0 then Finite s 0 (-1074)
      else
        let k = max (bitlen m - 53) (-1074 - e) in
        if k \<le> 0 then
          (if e + k > 971 then Infinity s else Finite s (m * 2 ^ nat (- k)) (e + k))
        else
          let q = round_half_even m (nat k);
              m' = (if q = 2 ^ 53 then 2 ^ 52 else q);
              e' = (if q = 2 ^ 53 then e + k + 1 else e + k)
          in if e' > 971 then Infinity s else Finite s m' e')"

text \<open>
  The float64 nearest to \<open>(-1)^s * (n / d) * 2^e\<close> for integers \<open>n > 0\<close>, \<open>d > 0\<close>:
  the quotient is taken with at least 56 bits and one more bit that records whether
  the division left a remainder, so that the rounding above sees on which side of a
  tie the exact quotient lies.
\<close>

definition round_ratio :: "bool \<Rightarrow> int \<Rightarrow> int \<Rightarrow> int \<Rightarrow> float64" where
  "round_ratio s n d e =
     (let sh = nat (max 0 (bitlen d - bitlen n + 56));
          q = (n * 2 ^ sh) div d;
          r = (n * 2 ^ sh) mod d
      in round_float64 s (2 * q + (if r = 0 then 0 else 1)) (e - int sh - 1))"

definition signed :: "bool \<Rightarrow> int \<Rightarrow> int" where
  "signed s m = (if s then - m else m)"

text \<open>Go's \<open>x + y\<close> on \<open>float64\<close>.\<close>

fun fadd :: "float64 \<Rightarrow> float64 \<Rightarrow> float64" where
  "fadd NaN y = NaN"
| "fadd x NaN = NaN"
| "fadd (Infinity s) (Infinity t) = (if s = t then Infinity s else NaN)"
| "fadd (Infinity s) (Finite t m e) = Infinity s"
| "fadd (Finite s m e) (Infinity t) = Infinity t"
| "fadd (Finite s1 m1 e1) (Finite s2 m2 e2) =
     (let e = min e1 e2;
          v = signed s1 (m1 * 2 ^ nat (e1 - e)) + signed s2 (m2 * 2 ^ nat (e2 - e))
      in if v = 0 then Finite (s1 \<and> s2) 0 (-1074) else round_float64 (v < 0) \<bar>v\<bar> e)"

text \<open>Go's \<open>x / y\<close> on \<open>float64\<close>: a division by zero is an infinity or a NaN, never a panic.\<close>

fun fdiv :: "float64 \<Rightarrow> float64 \<Rightarrow> float64" where
  "fdiv NaN y = NaN"
| "fdiv x NaN = NaN"
| "fdiv (Infinity s) (Infinity t) = NaN"
| "fdiv (Infinity s) (Finite t m e) = Infinity (s \<noteq> t)"
| "fdiv (Finite s m e) (Infinity t) = Finite (s \<noteq> t) 0 (-1074)"
| "fdiv (Finite s1 m1 e1) (Finite s2 m2 e2) =
     (if m2 = 0 then (if m1 = 0 then NaN else Infinity (s1 \<noteq> s2))
      else if m1 = 0 then Finite (s1 \<noteq> s2) 0 (-1074)
      else round_ratio (s1 \<noteq> s2) m1 m2 (e1 - e2))"

text \<open>Go's conversion \<open>float64(n)\<close> of a non-negative integer.\<close>

definition float64_of_nat :: "nat \<Rightarrow> float64" where
  "float64_of_nat n = round_float64 False (int n) 0"

text \<open>
  The float64 that a decimal literal \<open>n / 10^k\<close> denotes (\<open>273.15\<close> is
  \<open>float64_of_decimal 27315 2\<close>): Go converts a constant to the nearest float64.
\<close>

definition float64_of_decimal :: "int \<Rightarrow> nat \<Rightarrow> float64" where
  "float64_of_decimal n k =
     (if n = 0 then fzero else round_ratio (n < 0) \<bar>n\<bar> (10 ^ k) 0)"


section \<open>Errors, results and panics\<close>

text \<open>
  A Go \<open>error\<close> is an opaque value carrying a message. Every \<open>temperature\<close> method
  returns the pair \<open>(float64, error)\<close>; a \<open>nil\<close> error is \<open>None\<close>. A call can also
  panic (an index out of range), which is neither: \<open>Panics\<close>.
\<close>

datatype error = Error string

type_synonym result = "float64 \<times> error option"

datatype 'a outcome = Returns 'a | Panics string

section \<open>The network as the adapters see it\<close>

text \<open>
  \<open>http.Get(url)\<close> either fails (\<open>Inl err\<close>) or yields a response. The only thing an
  adapter does with a response is \<open>json.NewDecoder(resp.Body).Decode(&d)\<close> for a struct
  \<open>d\<close> it declares. A body is therefore modelled by what that decoding sees of it:
  \<open>Undecodable err\<close> when \<open>Decode\<close> returns \<open>err\<close>, and otherwise \<open>Document x\<close>, where
  \<open>x\<close> holds, for each path the struct names, the number found there, or \<open>None\<close>
  when the body has no such key. \<open>Decode\<close> leaves the field of an absent key as it
  was, which for the freshly declared \<open>d\<close> is Go's zero value.
\<close>

datatype 'd body = Undecodable error | Document 'd

type_synonym 'd http_get = "string \<Rightarrow> error + 'd body"

definition field :: "float64 option \<Rightarrow> float64" where
  "field v = (case v of None \<Rightarrow> fzero | Some x \<Rightarrow> x)"

text \<open>One element of the geocoding response's \<open>results\<close> array: \<open>geometry.location.lat\<close> and \<open>.lng\<close>.\<close>

record geo_result =
  lat :: "float64 option"
  lng :: "float64 option"

text \<open>
  The four endpoints, each with the document its caller decodes: \<open>main.temp\<close> for
  openweathermap.org, \<open>current_observation.temp_c\<close> for wunderground.com, the \<open>results\<close>
  array for the geocoder, \<open>currently.temperature\<close> for forecast.io. \<open>format_float\<close> is
  \<open>strconv.FormatFloat(x, 'f', -1, 64)\<close>.
\<close>

record network =
  get_openweathermap :: "float64 option http_get"
  get_wunderground :: "float64 option http_get"
  get_geocode :: "geo_result list http_get"
  get_forecast :: "float64 option http_get"
  format_float :: "float64 \<Rightarrow> string"

section \<open>The three adapters\<close>

text \<open>
  Each adapter is the source function line by line, with \<open>return 0, err\<close> as
  \<open>Returns (fzero, Some err)\<close>. The \<open>log.Printf\<close> lines and the deferred
  \<open>Body.Close()\<close> are left out: they change nothing that the functions return.
\<close>

text \<open>\<open>func (w openWeatherMap) temperature(city string) (float64, error)\<close>\<close>

definition openWeatherMap_temperature :: "network \<Rightarrow> string \<Rightarrow> result outcome" where
  "openWeatherMap_temperature net city =
     (case get_openweathermap net (''http://api.openweathermap.org/data/2.5/weather?q='' @ city) of
        Inl err \<Rightarrow> Returns (fzero, Some err)
      | Inr resp \<Rightarrow>
          (case resp of
             Undecodable err \<Rightarrow> Returns (fzero, Some err)
           | Document main_temp \<Rightarrow> Returns (field main_temp, None)))"

text \<open>\<open>func (w weatherUnderground) temperature(city string) (float64, error)\<close>\<close>

definition weatherUnderground_temperature :: "network \<Rightarrow> string \<Rightarrow> string \<Rightarrow> result outcome" where
  "weatherUnderground_temperature net apiKey city =
     (case get_wunderground net
             (''http://api.wunderground.com/api/'' @ apiKey @ ''/conditions/q/'' @ city @ ''.json'') of
        Inl err \<Rightarrow> Returns (fzero, Some err)
      | Inr resp \<Rightarrow>
          (case resp of
             Undecodable err \<Rightarrow> Returns (fzero, Some err)
           | Document temp_c \<Rightarrow>
               (let kelvin = fadd (field temp_c) (float64_of_decimal 27315 2)
                in Returns (kelvin, None))))"

text \<open>
  \<open>func (w forecastIo) temperature(city string) (float64, error)\<close>. The source reads
  \<open>location.Results[0]\<close> without looking at the length of the slice: on an empty
  \<open>results\<close> array the index expression panics.
\<close>

definition forecastIo_temperature :: "network \<Rightarrow> string \<Rightarrow> string \<Rightarrow> result outcome" where
  "forecastIo_temperature net apiKey city =
     (case get_geocode net (''https://maps.googleapis.com/maps/api/geocode/json?address='' @ city) of
        Inl err \<Rightarrow> Returns (fzero, Some err)
      | Inr locationResp \<Rightarrow>
          (case locationResp of
             Undecodable err \<Rightarrow> Returns (fzero, Some err)
           | Document results \<Rightarrow>
               (case results of
                  [] \<Rightarrow> Panics ''runtime error: index out of range''
                | r0 # _ \<Rightarrow>
                    (let latitude = format_float net (field (lat r0));
                         longitude = format_float net (field (lng r0))
                     in case get_forecast net
                               (''https://api.forecast.io/forecast/'' @ apiKey @ ''/'' @ latitude
                                  @ '','' @ longitude @ ''?units=si'') of
                          Inl err \<Rightarrow> Returns (fzero, Some err)
                        | Inr resp \<Rightarrow>
                            (case resp of
                               Undecodable err \<Rightarrow> Returns (fzero, Some err)
                             | Document temperature \<Rightarrow>
                                 (let kelvin = fadd (field temperature) (float64_of_decimal 27315 2)
                                  in Returns (kelvin, None)))))))"

section \<open>The aggregator and its constructor\<close>

text \<open>
  \<open>type weatherProvider interface { temperature(city string) (float64, error) }\<close>: a
  provider is its one method. \<open>type multiWeatherProvider []weatherProvider\<close>.
\<close>

type_synonym weatherProvider = "string \<Rightarrow> result outcome"

type_synonym multiWeatherProvider = "weatherProvider list"

text \<open>
  The configuration struct of \<open>getMultiWeatherProvider\<close>, and the file system as the
  function sees it: \<open>os.Open\<close> fails, or the file's decoding fails, or it yields the
  two keys.
\<close>

record conf =
  WeatherUnderground_ApiKey :: string
  ForecastIo_ApiKey :: string

type_synonym files = "string \<Rightarrow> error + conf body"

definition getMultiWeatherProvider ::
    "files \<Rightarrow> network \<Rightarrow> string \<Rightarrow> multiWeatherProvider \<times> error option" where
  "getMultiWeatherProvider fs net confFile =
     (case fs confFile of
        Inl err \<Rightarrow> ([], Some err)
      | Inr file \<Rightarrow>
          (case file of
             Undecodable err \<Rightarrow> ([], Some err)
           | Document c \<Rightarrow>
               ([openWeatherMap_temperature net,
                 weatherUnderground_temperature net (WeatherUnderground_ApiKey c),
                 forecastIo_temperature net (ForecastIo_ApiKey c)], None)))"

section \<open>One call of \<open>multiWeatherProvider.temperature\<close>\<close>

text \<open>
  A buffered Go channel: \<open>make(chan T, n)\<close> has an empty buffer of capacity \<open>n\<close>.
  A send on a full buffer blocks and a receive on an empty one is not ready: both are
  \<open>None\<close> here, a step that cannot be taken.
\<close>

record 'a chan =
  buf :: "'a list"
  cap :: nat

definition make_chan :: "nat \<Rightarrow> 'a chan" where
  "make_chan n = \<lparr>buf = [], cap = n\<rparr>"

definition send :: "'a chan \<Rightarrow> 'a \<Rightarrow> 'a chan option" where
  "send c x = (if length (buf c) < cap c then Some (c\<lparr>buf := buf c @ [x]\<rparr>) else None)"

definition recv :: "'a chan \<Rightarrow> ('a \<times> 'a chan) option" where
  "recv c = (case buf c of [] \<Rightarrow> None | x # xs \<Rightarrow> Some (x, c\<lparr>buf := xs\<rparr>))"

text \<open>
  The call runs \<open>len(w)\<close> goroutines beside its own loop. A goroutine is \<open>Running p\<close>
  until it has called \<open>p.temperature(city)\<close> and sent the outcome, then \<open>Finished\<close>.
  What one \<open>select\<close> of the loop took is an \<open>event\<close>.
\<close>

datatype task = Running weatherProvider | Finished

datatype event = Temp float64 | Err error | Timeout

text \<open>
  The state of a call: the receiver \<open>w\<close> and the argument \<open>city\<close>, the goroutines, the
  two channels, the loop's \<open>sum\<close> and \<open>i\<close>, the returned pair once the call has
  returned, and whether a goroutine has panicked, which ends the process. One field
  is history only and steers nothing: \<open>seen\<close>, the events of the selects so far.
\<close>

record call =
  providers :: multiWeatherProvider
  city_arg :: string
  tasks :: "task list"
  temps :: "float64 chan"
  errs :: "error chan"
  loop_sum :: float64
  loop_i :: nat
  returned :: "result option"
  crashed :: bool
  seen :: "event list"

text \<open>
  Lines 174 to 188: both channels are made with capacity \<open>len(w)\<close>, one goroutine is
  started per provider, \<open>sum := 0.0\<close>, \<open>i := 0\<close>.
\<close>

definition start :: "multiWeatherProvider \<Rightarrow> string \<Rightarrow> call" where
  "start w city =
     \<lparr>providers = w, city_arg = city, tasks = map Running w,
      temps = make_chan (length w), errs = make_chan (length w),
      loop_sum = fzero, loop_i = 0, returned = None, crashed = False,
      seen = []\<rparr>"

text \<open>
  What happens next is the scheduler's and the clock's choice: goroutine \<open>j\<close> finishes
  its call and sends; the pending select receives from \<open>temps\<close> or from \<open>errs\<close> after
  waiting \<open>d\<close> milliseconds; the select's timer fires; the loop is over and the call
  returns. When several cases of a select are ready Go picks one at random, and it
  promises no bound on how late a goroutine is scheduled: the model therefore lets any
  ready receive be taken and lets the timer fire in any select, so that it has every
  behaviour of the program.
\<close>

datatype choice = Publish nat | RecvTemp nat | RecvErr nat | TimerFires | Return

text \<open>\<open>time.Millisecond * 1500\<close>\<close>

definition deadline :: nat where
  "deadline = 1500"

text \<open>
  The goroutine body, lines 178 to 185: \<open>k, err := p.temperature(city)\<close>, then
  \<open>errs <- err\<close> if \<open>err != nil\<close>, else \<open>temps <- k\<close>. A panic inside the provider is
  not recovered and takes the process down.
\<close>

definition publish :: "call \<Rightarrow> nat \<Rightarrow> call option" where
  "publish s j =
     (if j < length (tasks s) then
        (case tasks s ! j of
           Finished \<Rightarrow> None
         | Running p \<Rightarrow>
             (case p (city_arg s) of
                Panics msg \<Rightarrow> Some (s\<lparr>crashed := True\<rparr>)
              | Returns r \<Rightarrow>
                  (case snd r of
                     Some err \<Rightarrow>
                       (case send (errs s) err of
                          None \<Rightarrow> None
                        | Some c \<Rightarrow> Some (s\<lparr>errs := c, tasks := (tasks s)[j := Finished]\<rparr>))
                   | None \<Rightarrow>
                       (case send (temps s) (fst r) of
                          None \<Rightarrow> None
                        | Some c \<Rightarrow> Some (s\<lparr>temps := c, tasks := (tasks s)[j := Finished]\<rparr>)))))
      else None)"

text \<open>The loop is inside one of its \<open>len(w)\<close> selects: \<open>i < len(w)\<close> and not yet returned.\<close>

definition selecting :: "call \<Rightarrow> bool" where
  "selecting s = (returned s = None \<and> loop_i s < length (providers s))"

text \<open>
  Lines 190 to 199, one select. \<open>case temp := <-temps: sum += temp\<close>;
  \<open>case err := <-errs: return 0, err\<close>; \<open>case <-time.After(...)\<close>: a log line only.
  The first and the last case end with \<open>i++\<close>. The \<open>d\<close> of a receive is a note
  of the schedule, the milliseconds the select had waited when the value came, noted
  up to the deadline. It steers nothing: every receive the program can make is a step
  here for \<open>d = 0\<close>. How long a select really waits is not modelled: \<open>time.After\<close>
  delivers no earlier than after the deadline and the runtime may be late.
\<close>

definition recv_temp :: "call \<Rightarrow> nat \<Rightarrow> call option" where
  "recv_temp s d =
     (if selecting s \<and> d \<le> deadline then
        (case recv (temps s) of
           None \<Rightarrow> None
         | Some (temp, c) \<Rightarrow>
             Some (s\<lparr>temps := c, loop_sum := fadd (loop_sum s) temp, loop_i := loop_i s + 1,
                     seen := seen s @ [Temp temp]\<rparr>))
      else None)"

definition recv_err :: "call \<Rightarrow> nat \<Rightarrow> call option" where
  "recv_err s d =
     (if selecting s \<and> d \<le> deadline then
        (case recv (errs s) of
           None \<Rightarrow> None
         | Some (err, c) \<Rightarrow>
             Some (s\<lparr>errs := c, returned := Some (fzero, Some err),
                     seen := seen s @ [Err err]\<rparr>))
      else None)"

definition timer_fires :: "call \<Rightarrow> call option" where
  "timer_fires s =
     (if selecting s then
        Some (s\<lparr>loop_i := loop_i s + 1, seen := seen s @ [Timeout]\<rparr>)
      else None)"

text \<open>Line 201, after the loop: \<open>return sum / float64(len(w)), nil\<close>.\<close>

definition return_average :: "call \<Rightarrow> call option" where
  "return_average s =
     (if returned s = None \<and> \<not> loop_i s < length (providers s) then
        Some (s\<lparr>returned := Some (fdiv (loop_sum s) (float64_of_nat (length (providers s))), None)\<rparr>)
      else None)"

definition step :: "call \<Rightarrow> choice \<Rightarrow> call option" where
  "step s c =
     (if crashed s then None
      else case c of
        Publish j \<Rightarrow> publish s j
      | RecvTemp d \<Rightarrow> recv_temp s d
      | RecvErr d \<Rightarrow> recv_err s d
      | TimerFires \<Rightarrow> timer_fires s
      | Return \<Rightarrow> return_average s)"

text \<open>A schedule is a list of choices; \<open>exec\<close> follows it as far as every step can be taken.\<close>

fun exec :: "choice list \<Rightarrow> call \<Rightarrow> call option" where
  "exec [] s = Some s"
| "exec (c # cs) s = (case step s c of None \<Rightarrow> None | Some s' \<Rightarrow> exec cs s')"

text \<open>
  \<open>func (w multiWeatherProvider) temperature(city string) (float64, error)\<close> under a
  schedule: the pair the call has returned when the schedule ends, \<open>None\<close> if it has
  not returned by then or the schedule is not one the program can follow.
\<close>

definition multiWeatherProvider_temperature ::
    "multiWeatherProvider \<Rightarrow> string \<Rightarrow> choice list \<Rightarrow> result option" where
  "multiWeatherProvider_temperature w city sched =
     (case exec sched (start w city) of None \<Rightarrow> None | Some s \<Rightarrow> returned s)"

text \<open>The selects among the choices of a schedule: the attempts of the loop.\<close>

fun is_select :: "choice \<Rightarrow> bool" where
  "is_select (RecvTemp d) = True"
| "is_select (RecvErr d) = True"
| "is_select TimerFires = True"
| "is_select (Publish j) = False"
| "is_select Return = False"

text \<open>The temperatures among a list of events, in order.\<close>

fun temps_of :: "event list \<Rightarrow> float64 list" where
  "temps_of [] = []"
| "temps_of (Temp t # evs) = t # temps_of evs"
| "temps_of (Err e # evs) = temps_of evs"
| "temps_of (Timeout # evs) = temps_of evs"

text \<open>
  The temperatures the providers of \<open>w\<close> yield for \<open>city\<close>, in the order of \<open>w\<close>: one
  for each provider whose call returns a \<open>nil\<close> error. The errors likewise.
\<close>

definition reading :: "result outcome \<Rightarrow> float64 list" where
  "reading r = (case r of Returns (k, None) \<Rightarrow> [k] | _ \<Rightarrow> [])"

definition failure :: "result outcome \<Rightarrow> error list" where
  "failure r = (case r of Returns (k, Some err) \<Rightarrow> [err] | _ \<Rightarrow> [])"

definition readings :: "multiWeatherProvider \<Rightarrow> string \<Rightarrow> float64 list" where
  "readings w city = concat (map (\<lambda>p. reading (p city)) w)"

definition failures :: "multiWeatherProvider \<Rightarrow> string \<Rightarrow> error list" where
  "failures w city = concat (map (\<lambda>p. failure (p city)) w)"

text \<open>The goroutines that have not sent yet, and what they will send.\<close>

definition running :: "task list \<Rightarrow> task list" where
  "running ts = filter (\<lambda>t. t \<noteq> Finished) ts"

fun pending :: "string \<Rightarrow> task list \<Rightarrow> float64 list" where
  "pending city [] = []"
| "pending city (Running p # ts) = reading (p city) @ pending city ts"
| "pending city (Finished # ts) = pending city ts"

section \<open>Test doubles\<close>

text \<open>
  Providers with a fixed answer, as a test of the aggregator would use them: one that
  always succeeds with a given temperature and one that always fails with a given
  error.
\<close>

definition fixed :: "float64 \<Rightarrow> weatherProvider" where
  "fixed t = (\<lambda>city. Returns (t, None))"

definition failing :: "error \<Rightarrow> weatherProvider" where
  "failing err = (\<lambda>city. Returns (fzero, Some err))"

text \<open>
  The readings of the specification's example, \<open>300.0\<close>, \<open>301.5\<close> and \<open>298.5\<close>
  kelvin, and three readings whose float64 sum depends on the order of the additions.
\<close>

definition kelvin_300_0 :: float64 where
  "kelvin_300_0 = float64_of_decimal 3000 1"

definition kelvin_301_5 :: float64 where
  "kelvin_301_5 = float64_of_decimal 3015 1"

definition kelvin_298_5 :: float64 where
  "kelvin_298_5 = float64_of_decimal 2985 1"

definition kelvin_0_1 :: float64 where
  "kelvin_0_1 = float64_of_decimal 1 1"

definition kelvin_0_2 :: float64 where
  "kelvin_0_2 = float64_of_decimal 2 1"

definition kelvin_0_3 :: float64 where
  "kelvin_0_3 = float64_of_decimal 3 1"

text \<open>
  A configuration file with both keys, and the network as it answers for a city that
  none of the services knows: openweathermap.org and wunderground.com send an error
  object, which decodes but has no temperature in it, and the geocoder sends
  \<open>{"results": [], "status": "ZERO_RESULTS"}\<close>.
\<close>

definition example_files :: files where
  "example_files path =
     (if path = ''conf.json''
      then Inr (Document \<lparr>WeatherUnderground_ApiKey = ''wu-key'', ForecastIo_ApiKey = ''fio-key''\<rparr>)
      else Inl (Error ''open: no such file or directory''))"

definition unknown_city_net :: network where
  "unknown_city_net =
     \<lparr>get_openweathermap = (\<lambda>url. Inr (Document None)),
      get_wunderground = (\<lambda>url. Inr (Document None)),
      get_geocode = (\<lambda>url. Inr (Document [])),
      get_forecast = (\<lambda>url. Inl (Error ''Get: no such host'')),
      format_float = (\<lambda>x. ''0'')\<rparr>"

text \<open>The network with no route to any of the services.\<close>

definition offline_net :: network where
  "offline_net =
     \<lparr>get_openweathermap = (\<lambda>url. Inl (Error ''dial tcp: no route to host'')),
      get_wunderground = (\<lambda>url. Inl (Error ''dial tcp: no route to host'')),
      get_geocode = (\<lambda>url. Inl (Error ''dial tcp: no route to host'')),
      get_forecast = (\<lambda>url. Inl (Error ''dial tcp: no route to host'')),
      format_float = (\<lambda>x. ''0'')\<rparr>"

definition example_mw :: multiWeatherProvider where
  "example_mw = fst (getMultiWeatherProvider example_files unknown_city_net ''conf.json'')"

section \<open>Facts about the arithmetic\<close>

lemma round_half_even_pos:
  assumes "2 ^ k \<le> m"
  shows "0 < round_half_even m k"
proof -
  have "(2::int) ^ k div 2 ^ k \<le> m div 2 ^ k"
    using assms by (intro zdiv_mono1) auto
  then have "1 \<le> m div 2 ^ k" by simp
  then show ?thesis
    by (auto simp: round_half_even_def Let_def)
qed

lemma float64_of_nat_pos:
  assumes "0 < n"
  shows "(\<exists>m e. float64_of_nat n = Finite False m e \<and> m \<noteq> 0) \<or> float64_of_nat n = Infinity False"
proof -
  let ?m = "int n"
  have pos: "0 < ?m" using assms by simp
  have bl: "1 \<le> bitlen ?m" using pos bitlen_eq_zero_iff [of ?m] bitlen_nonneg [of ?m] by linarith
  have k: "max (bitlen ?m - 53) (- 1074 - 0) = bitlen ?m - 53" using bl by simp
  show ?thesis
  proof (cases "bitlen ?m - 53 \<le> 0")
    case True
    then show ?thesis using pos k
      by (simp add: float64_of_nat_def round_float64_def Let_def)
  next
    case False
    then have le: "nat (bitlen ?m - 53) \<le> nat (bitlen ?m - 1)" by simp
    have "(2::int) ^ nat (bitlen ?m - 53) \<le> 2 ^ nat (bitlen ?m - 1)"
      using le by (simp add: power_increasing)
    also have "\<dots> \<le> ?m" using bitlen_bounds [OF pos] by simp
    finally have "0 < round_half_even ?m (nat (bitlen ?m - 53))"
      by (rule round_half_even_pos)
    then show ?thesis using pos k False
      by (auto simp: float64_of_nat_def round_float64_def Let_def)
  qed
qed

lemma zero_over_count:
  assumes "0 < n"
  shows "fdiv fzero (float64_of_nat n) = fzero"
  using float64_of_nat_pos [OF assms] by (auto simp: fzero_def)

text \<open>Addition is commutative, and adding to zero is exact.\<close>

lemma fadd_commute: "fadd a b = fadd b a"
proof (cases a)
  case (Finite s1 m1 e1)
  show ?thesis
  proof (cases b)
    case (Finite s2 m2 e2)
    have "min e1 e2 = min e2 e1" by (simp add: min.commute)
    then show ?thesis
      unfolding \<open>a = Finite s1 m1 e1\<close> \<open>b = Finite s2 m2 e2\<close>
      by (simp add: Let_def add.commute conj_commute)
  qed (simp_all add: Finite)
next
  case (Infinity s)
  then show ?thesis by (cases b) auto
next
  case NaN
  then show ?thesis by (cases b) auto
qed

lemma bitlen_53:
  assumes "2 ^ 52 \<le> m" and "m < 2 ^ 53"
  shows "bitlen m = 53"
proof -
  have "bitlen m \<le> 53" using assms(2) by (simp add: bitlen_le_iff_power)
  moreover have "\<not> bitlen m \<le> 52" using assms(1) by (simp add: bitlen_le_iff_power)
  ultimately show ?thesis by linarith
qed

lemma round_half_even_exact: "round_half_even (m * 2 ^ c) c = m"
  by (simp add: round_half_even_def Let_def)

lemma round_canonical:
  assumes "canonical (Finite t m e)" and "m \<noteq> 0"
  shows "round_float64 t (m * 2 ^ nat (e + 1074)) (- 1074) = Finite t m e"
proof -
  from assms have m: "0 < m" "m < 2 ^ 53" and e: "- 1074 \<le> e" "e \<le> 971"
    and norm: "2 ^ 52 \<le> m \<or> e = - 1074"
    by (auto simp: canonical_def)
  let ?c = "nat (e + 1074)"
  have bl: "bitlen (m * 2 ^ ?c) = bitlen m + int ?c" using m(1) by simp
  have nz: "m * 2 ^ ?c \<noteq> 0" using m(1) by simp
  show ?thesis
  proof (cases "2 ^ 52 \<le> m")
    case True
    then have b53: "bitlen m = 53" using m(2) by (rule bitlen_53)
    show ?thesis
    proof (cases "e = - 1074")
      case True
      then show ?thesis using nz b53 bl by (simp add: round_float64_def Let_def)
    next
      case False
      then have c: "0 < e + 1074" using e by simp
      have k: "max (bitlen (m * 2 ^ ?c) - 53) (- 1074 - (- 1074)) = e + 1074"
        using bl b53 c by simp
      have "m \<noteq> 2 ^ 53" using m(2) by simp
      then show ?thesis
        using nz c e m(2) unfolding round_float64_def k Let_def
        by (simp add: round_half_even_exact)
    qed
  next
    case False
    then have e': "e = - 1074" using norm by simp
    have "bitlen m \<le> 52" using False by (simp add: bitlen_le_iff_power)
    then show ?thesis using nz bl e' by (simp add: round_float64_def Let_def)
  qed
qed

lemma fadd_zero_left:
  assumes "canonical (Finite t m e)" and "m \<noteq> 0"
  shows "fadd (Finite s 0 (- 1074)) (Finite t m e) = Finite t m e"
proof -
  from assms have m: "0 < m" and e: "- 1074 \<le> e" by (auto simp: canonical_def)
  have mn: "min (- 1074) e = - 1074" using e by simp
  have pos: "0 < m * 2 ^ nat (e + 1074)" using m by simp
  then have nn: "\<not> m * 2 ^ nat (e + 1074) < 0" by linarith
  have "fadd (Finite s 0 (- 1074)) (Finite t m e)
          = round_float64 t (m * 2 ^ nat (e + 1074)) (- 1074)"
    using pos nn mn m by (cases t) (simp_all add: Let_def signed_def)
  then show ?thesis using round_canonical [OF assms] by simp
qed

text \<open>Two canonical values added to \<open>0.0\<close> give the same sum in either order.\<close>

lemma two_additions_commute:
  assumes "canonical a" and "canonical b"
  shows "fadd (fadd fzero a) b = fadd (fadd fzero b) a"
proof -
  have zl: "fadd fzero x = (case x of Finite s m e \<Rightarrow> if m = 0 then fzero else x | _ \<Rightarrow> x)"
    if "canonical x" for x
  proof (cases x)
    case (Finite s m e)
    show ?thesis
    proof (cases "m = 0")
      case True
      then show ?thesis using Finite by (simp add: fzero_def Let_def signed_def)
    next
      case False
      then show ?thesis using fadd_zero_left [of s m e False] that Finite by (simp add: fzero_def)
    qed
  qed (simp_all add: fzero_def)
  have absorb: "fadd y (Finite s 0 e) = y"
    if "canonical (Finite s 0 e)" and "y = fzero \<or> (canonical y \<and> (\<forall>t m e'. y = Finite t m e' \<longrightarrow> m \<noteq> 0))" for y s e
  proof -
    have e: "e = - 1074" using that(1) by (simp add: canonical_def)
    show ?thesis
    proof (cases y)
      case (Finite t m e')
      show ?thesis
      proof (cases "m = 0")
        case True
        then have "y = fzero" using that(2) Finite by auto
        then show ?thesis unfolding e by (simp add: fzero_def Let_def signed_def)
      next
        case False
        then have "canonical (Finite t m e')" using that(2) Finite by (auto simp: fzero_def)
        then have "fadd (Finite s 0 (- 1074)) (Finite t m e') = Finite t m e'"
          using False by (rule fadd_zero_left)
        then show ?thesis unfolding e Finite by (simp only: fadd_commute)
      qed
    qed (simp_all)
  qed
  have shape: "fadd fzero x = fzero \<or> (canonical (fadd fzero x) \<and> (\<forall>t m e'. fadd fzero x = Finite t m e' \<longrightarrow> m \<noteq> 0))"
    if "canonical x" for x
  proof (cases x)
    case (Finite s m e)
    show ?thesis
    proof (cases "m = 0")
      case True
      then show ?thesis using zl [OF that] Finite by simp
    next
      case False
      then have "fadd fzero x = x" using zl [OF that] Finite by simp
      then show ?thesis using that Finite False by simp
    qed
  next
    case (Infinity s)
    then show ?thesis by (simp add: fzero_def canonical_def)
  next
    case NaN
    then show ?thesis by (simp add: fzero_def canonical_def)
  qed
  show ?thesis
  proof (cases a)
    case (Finite s m e)
    note a = Finite
    show ?thesis
    proof (cases "m = 0")
      case True
      then have "fadd fzero a = fzero" using zl [OF assms(1)] a by simp
      moreover have "fadd (fadd fzero b) a = fadd fzero b"
        using absorb [of s e "fadd fzero b"] assms(1) shape [OF assms(2)] a True by simp
      ultimately show ?thesis by simp
    next
      case False
      then have fa: "fadd fzero a = a" using zl [OF assms(1)] a by simp
      show ?thesis
      proof (cases b)
        case (Finite s2 m2 e2)
        note b = Finite
        show ?thesis
        proof (cases "m2 = 0")
          case True
          then have "fadd fzero b = fzero" using zl [OF assms(2)] b by simp
          moreover have "fadd (fadd fzero a) b = fadd fzero a"
            using absorb [of s2 e2 "fadd fzero a"] assms(2) shape [OF assms(1)] b True by simp
          ultimately show ?thesis by simp
        next
          case False
          then have "fadd fzero b = b" using zl [OF assms(2)] b by simp
          then show ?thesis using fa by (simp only: fadd_commute)
        qed
      next
        case (Infinity s2)
        then have "fadd fzero b = b" by (simp add: fzero_def)
        then show ?thesis using fa by (simp only: fadd_commute)
      next
        case NaN
        then have "fadd fzero b = b" by (simp add: fzero_def)
        then show ?thesis using fa by (simp only: fadd_commute)
      qed
    qed
  next
    case (Infinity s)
    then have fa: "fadd fzero a = a" by (simp add: fzero_def)
    have "fadd a b = fadd (fadd fzero b) a"
    proof (cases b)
      case (Finite s2 m2 e2)
      then have "fadd fzero b = fzero \<or> fadd fzero b = b"
        using zl [OF assms(2)] by (cases "m2 = 0") simp_all
      then show ?thesis using Finite Infinity by (auto simp: fzero_def)
    next
      case (Infinity s2)
      then show ?thesis using \<open>a = Infinity s\<close> by (simp add: fzero_def)
    next
      case NaN
      then show ?thesis using \<open>a = Infinity s\<close> by (simp add: fzero_def)
    qed
    then show ?thesis using fa by simp
  next
    case NaN
    then show ?thesis by (cases "fadd fzero b") (simp_all add: fzero_def)
  qed
qed

text \<open>The arithmetic of the examples, one operation at a time.\<close>

lemma kelvin_300_0_bits: "kelvin_300_0 = Finite False 5277655813324800 (- 44)"
  by code_simp

lemma kelvin_301_5_bits: "kelvin_301_5 = Finite False 5304044092391424 (- 44)"
  by code_simp

lemma kelvin_298_5_bits: "kelvin_298_5 = Finite False 5251267534258176 (- 44)"
  by code_simp

lemma kelvin_0_1_bits: "kelvin_0_1 = Finite False 7205759403792794 (- 56)"
  by code_simp

lemma kelvin_0_2_bits: "kelvin_0_2 = Finite False 7205759403792794 (- 55)"
  by code_simp

lemma kelvin_0_3_bits: "kelvin_0_3 = Finite False 5404319552844595 (- 54)"
  by code_simp

lemma kelvin_273_15_bits: "float64_of_decimal 27315 2 = Finite False 4805305618032230 (- 44)"
  by code_simp

lemma float64_of_nat_2: "float64_of_nat 2 = Finite False 4503599627370496 (- 51)"
  by code_simp

lemma float64_of_nat_3: "float64_of_nat 3 = Finite False 6755399441055744 (- 51)"
  by code_simp

lemma sum_300_0: "fadd fzero (Finite False 5277655813324800 (- 44)) = Finite False 5277655813324800 (- 44)"
  by code_simp

lemma sum_601_5:
  "fadd (Finite False 5277655813324800 (- 44)) (Finite False 5304044092391424 (- 44))
     = Finite False 5290849952858112 (- 43)"
  by code_simp

lemma sum_900_0:
  "fadd (Finite False 5290849952858112 (- 43)) (Finite False 5251267534258176 (- 44))
     = Finite False 7916483719987200 (- 43)"
  by code_simp

lemma average_300_0:
  "fdiv (Finite False 7916483719987200 (- 43)) (Finite False 6755399441055744 (- 51))
     = Finite False 5277655813324800 (- 44)"
  by code_simp

lemma sum_598_5:
  "fadd (Finite False 5277655813324800 (- 44)) (Finite False 5251267534258176 (- 44))
     = Finite False 5264461673791488 (- 43)"
  by code_simp

lemma average_199_5:
  "fdiv (Finite False 5264461673791488 (- 43)) (Finite False 6755399441055744 (- 51))
     = Finite False 7019282231721984 (- 45)"
  by code_simp

lemma average_299_25:
  "fdiv (Finite False 5264461673791488 (- 43)) (Finite False 4503599627370496 (- 51))
     = Finite False 5264461673791488 (- 44)"
  by code_simp

lemma sum_0_1: "fadd fzero (Finite False 7205759403792794 (- 56)) = Finite False 7205759403792794 (- 56)"
  by code_simp

lemma sum_0_3: "fadd fzero (Finite False 5404319552844595 (- 54)) = Finite False 5404319552844595 (- 54)"
  by code_simp

lemma sum_0_1_0_2:
  "fadd (Finite False 7205759403792794 (- 56)) (Finite False 7205759403792794 (- 55))
     = Finite False 5404319552844596 (- 54)"
  by code_simp

lemma sum_0_1_0_2_0_3:
  "fadd (Finite False 5404319552844596 (- 54)) (Finite False 5404319552844595 (- 54))
     = Finite False 5404319552844596 (- 53)"
  by code_simp

lemma sum_0_3_0_2:
  "fadd (Finite False 5404319552844595 (- 54)) (Finite False 7205759403792794 (- 55))
     = Finite False 4503599627370496 (- 53)"
  by code_simp

lemma sum_0_3_0_2_0_1:
  "fadd (Finite False 4503599627370496 (- 53)) (Finite False 7205759403792794 (- 56))
     = Finite False 5404319552844595 (- 53)"
  by code_simp

lemma average_0_1_0_2_0_3:
  "fdiv (Finite False 5404319552844596 (- 53)) (Finite False 6755399441055744 (- 51))
     = Finite False 7205759403792795 (- 55)"
  by code_simp

lemma average_0_3_0_2_0_1:
  "fdiv (Finite False 5404319552844595 (- 53)) (Finite False 6755399441055744 (- 51))
     = Finite False 7205759403792793 (- 55)"
  by code_simp

lemma sum_273_15: "fadd fzero (Finite False 4805305618032230 (- 44)) = Finite False 4805305618032230 (- 44)"
  by code_simp

lemma sum_298_5: "fadd fzero (Finite False 5251267534258176 (- 44)) = Finite False 5251267534258176 (- 44)"
  by code_simp

lemma sum_298_5_300_0:
  "fadd (Finite False 5251267534258176 (- 44)) (Finite False 5277655813324800 (- 44))
     = Finite False 5264461673791488 (- 43)"
  by code_simp

lemma sum_598_5_301_5:
  "fadd (Finite False 5264461673791488 (- 43)) (Finite False 5304044092391424 (- 44))
     = Finite False 7916483719987200 (- 43)"
  by code_simp

text \<open>Up to two canonical readings add up to the same sum in either order.\<close>

lemma mset_pair:
  assumes "mset [a, b] = mset ys"
  shows "ys = [a, b] \<or> ys = [b, a]"
proof -
  have "length ys = 2" using mset_eq_length [OF assms] by simp
  then obtain c d where ys: "ys = [c, d]"
    by (metis (no_types, opaque_lifting) One_nat_def Suc_1 length_0_conv length_Suc_conv)
  have "{#a, b#} = {#c, d#}" using assms ys by simp
  then have "(a = c \<and> b = d) \<or> (a = d \<and> b = c)"
    by (auto simp: add_eq_conv_ex)
  then show ?thesis using ys by auto
qed

lemma short_sums_commute:
  assumes "mset xs = mset ys" and "length xs \<le> 2" and "\<forall>t\<in>set xs. canonical t"
  shows "foldl fadd fzero xs = foldl fadd fzero ys"
proof (cases xs)
  case Nil
  then show ?thesis using assms(1) by simp
next
  case (Cons a xs')
  show ?thesis
  proof (cases xs')
    case Nil
    then have "mset ys = {#a#}" using assms(1) Cons by simp
    then have "ys = [a]" by simp
    then show ?thesis using Cons Nil by simp
  next
    case (Cons b xs'')
    then have xs: "xs = [a, b]" using \<open>xs = a # xs'\<close> assms(2) by simp
    then have "ys = [a, b] \<or> ys = [b, a]" using mset_pair assms(1) by simp
    moreover have "fadd (fadd fzero a) b = fadd (fadd fzero b) a"
      using assms(3) xs by (intro two_additions_commute) auto
    ultimately show ?thesis using xs by auto
  qed
qed

section \<open>Following a schedule\<close>

lemma exec_append:
  "exec (xs @ ys) s = (case exec xs s of None \<Rightarrow> None | Some s' \<Rightarrow> exec ys s')"
  by (induction xs arbitrary: s) (auto split: option.splits)

lemma exec_snoc:
  "exec (xs @ [c]) s = Some s' \<longleftrightarrow> (\<exists>t. exec xs s = Some t \<and> step t c = Some s')"
  by (auto simp: exec_append split: option.splits)

lemma step_cases [consumes 1, case_names Panic PublishErr PublishTemp RecvTemp RecvErr Timer Return]:
  assumes "step s c = Some s'"
  obtains
    (Panic) j p msg where "c = Publish j" "\<not> crashed s" "j < length (tasks s)" "tasks s ! j = Running p"
      "p (city_arg s) = Panics msg" "s' = s\<lparr>crashed := True\<rparr>"
  | (PublishErr) j p k err where "c = Publish j" "\<not> crashed s" "j < length (tasks s)" "tasks s ! j = Running p"
      "p (city_arg s) = Returns (k, Some err)" "length (buf (errs s)) < cap (errs s)"
      "s' = s\<lparr>errs := (errs s)\<lparr>buf := buf (errs s) @ [err]\<rparr>, tasks := (tasks s)[j := Finished]\<rparr>"
  | (PublishTemp) j p k where "c = Publish j" "\<not> crashed s" "j < length (tasks s)" "tasks s ! j = Running p"
      "p (city_arg s) = Returns (k, None)" "length (buf (temps s)) < cap (temps s)"
      "s' = s\<lparr>temps := (temps s)\<lparr>buf := buf (temps s) @ [k]\<rparr>, tasks := (tasks s)[j := Finished]\<rparr>"
  | (RecvTemp) d t ts where "c = RecvTemp d" "\<not> crashed s" "selecting s" "d \<le> deadline" "buf (temps s) = t # ts"
      "s' = s\<lparr>temps := (temps s)\<lparr>buf := ts\<rparr>, loop_sum := fadd (loop_sum s) t, loop_i := loop_i s + 1,
               seen := seen s @ [Temp t]\<rparr>"
  | (RecvErr) d e es where "c = RecvErr d" "\<not> crashed s" "selecting s" "d \<le> deadline" "buf (errs s) = e # es"
      "s' = s\<lparr>errs := (errs s)\<lparr>buf := es\<rparr>, returned := Some (fzero, Some e),
               seen := seen s @ [Err e]\<rparr>"
  | (Timer) "c = TimerFires" "\<not> crashed s" "selecting s"
      "s' = s\<lparr>loop_i := loop_i s + 1, seen := seen s @ [Timeout]\<rparr>"
  | (Return) "c = Return" "\<not> crashed s" "returned s = None" "\<not> loop_i s < length (providers s)"
      "s' = s\<lparr>returned := Some (fdiv (loop_sum s) (float64_of_nat (length (providers s))), None)\<rparr>"
proof (cases c)
  case (Publish j)
  with assms show ?thesis
    using Panic PublishErr PublishTemp
    by (auto simp: step_def publish_def send_def split: if_splits task.splits outcome.splits option.splits prod.splits)
next
  case (RecvTemp d)
  with assms show ?thesis
    using that(4) by (auto simp: step_def recv_temp_def recv_def split: if_splits list.splits)
next
  case (RecvErr d)
  with assms show ?thesis
    using that(5) by (auto simp: step_def recv_err_def recv_def split: if_splits list.splits)
next
  case TimerFires
  with assms show ?thesis
    using that(6) by (auto simp: step_def timer_fires_def split: if_splits)
next
  case Return
  with assms show ?thesis
    using that(7) by (auto simp: step_def return_average_def split: if_splits)
qed

lemma exec_induct [consumes 1, case_names Start Step]:
  assumes "exec sched s0 = Some s" and "P [] s0"
    and "\<And>cs t c t'. exec cs s0 = Some t \<Longrightarrow> P cs t \<Longrightarrow> step t c = Some t' \<Longrightarrow> P (cs @ [c]) t'"
  shows "P sched s"
  using assms(1)
proof (induction sched arbitrary: s rule: rev_induct)
  case Nil
  then show ?case using assms(2) by simp
next
  case (snoc c cs)
  then obtain t where "exec cs s0 = Some t" "step t c = Some s"
    by (auto simp: exec_snoc)
  then show ?case using snoc.IH assms(3) by blast
qed

lemma temps_of_append [simp]: "temps_of (xs @ ys) = temps_of xs @ temps_of ys"
  by (induction xs rule: temps_of.induct) auto

lemma frame:
  assumes "exec sched (start w city) = Some s"
  shows "providers s = w \<and> city_arg s = city \<and> cap (temps s) = length w \<and> cap (errs s) = length w
    \<and> length (tasks s) = length w
    \<and> (\<forall>j<length w. tasks s ! j = Finished \<or> tasks s ! j = Running (w ! j))"
  using assms
proof (induction rule: exec_induct)
  case Start
  show ?case by (simp add: start_def make_chan_def)
next
  case (Step cs t c t')
  from Step.hyps(2) Step.IH show ?case
    by (cases rule: step_cases) (auto simp: nth_list_update)
qed


lemma running_update:
  "j < length xs \<Longrightarrow> xs ! j \<noteq> Finished \<Longrightarrow>
     Suc (length (running (xs[j := Finished]))) = length (running xs)"
proof (induction xs arbitrary: j)
  case Nil
  then show ?case by simp
next
  case (Cons x xs)
  then show ?case by (cases j) (auto simp: running_def)
qed

lemma pending_update:
  "j < length xs \<Longrightarrow> xs ! j = Running p \<Longrightarrow>
     mset (pending city xs) = mset (reading (p city)) + mset (pending city (xs[j := Finished]))"
proof (induction xs arbitrary: j)
  case Nil
  then show ?case by simp
next
  case (Cons x xs)
  show ?case
  proof (cases j)
    case 0
    with Cons.prems show ?thesis by simp
  next
    case (Suc j')
    with Cons.prems Cons.IH [of j'] show ?thesis by (cases x) auto
  qed
qed

lemma pending_start: "pending city (map Running w) = readings w city"
  by (induction w) (auto simp: readings_def)

text \<open>Every outcome sent is in a buffer or has been taken by a select.\<close>

lemma accounting:
  assumes "exec sched (start w city) = Some s"
  shows "length (buf (temps s)) + length (buf (errs s)) + length (running (tasks s))
           + length (filter (\<lambda>e. e \<noteq> Timeout) (seen s)) = length w"
  using assms
proof (induction rule: exec_induct)
  case Start
  show ?case by (simp add: start_def make_chan_def running_def)
next
  case (Step cs t c t')
  from Step.hyps(2) Step.IH show ?case
  proof (cases rule: step_cases)
    case (PublishErr j p k err)
    then show ?thesis using Step.IH running_update [of j "tasks t"] by auto
  next
    case (PublishTemp j p k)
    then show ?thesis using Step.IH running_update [of j "tasks t"] by auto
  qed auto
qed

lemma provenance:
  assumes "exec sched (start w city) = Some s"
  shows "mset (temps_of (seen s)) + mset (buf (temps s)) + mset (pending city (tasks s))
           = mset (readings w city)"
  using assms
proof (induction rule: exec_induct)
  case Start
  show ?case by (simp add: start_def make_chan_def pending_start)
next
  case (Step cs t c t')
  have city: "city_arg t = city" using frame [OF Step.hyps(1)] by simp
  from Step.hyps(2) Step.IH show ?case
  proof (cases rule: step_cases)
    case (PublishErr j p k err)
    then show ?thesis using Step.IH pending_update [of j "tasks t" p city] city
      by (auto simp: reading_def)
  next
    case (PublishTemp j p k)
    then show ?thesis using Step.IH pending_update [of j "tasks t" p city] city
      by (auto simp: reading_def)
  qed auto
qed

text \<open>The loop's variables and the returned pair as functions of what the selects have taken.\<close>

lemma loop_state:
  assumes "exec sched (start w city) = Some s"
  shows "loop_sum s = foldl fadd fzero (temps_of (seen s))
       \<and> (case returned s of
            None \<Rightarrow> loop_i s = length (seen s) \<and> loop_i s \<le> length w \<and> (\<forall>x. Err x \<notin> set (seen s))
          | Some r \<Rightarrow>
              (\<exists>evs e. seen s = evs @ [Err e] \<and> (\<forall>x. Err x \<notin> set evs) \<and> length evs < length w
                  \<and> r = (fzero, Some e))
              \<or> (length (seen s) = length w \<and> (\<forall>x. Err x \<notin> set (seen s))
                  \<and> r = (fdiv (loop_sum s) (float64_of_nat (length w)), None)))"
  using assms
proof (induction rule: exec_induct)
  case Start
  show ?case by (simp add: start_def)
next
  case (Step cs t c t')
  have w: "providers t = w" using frame [OF Step.hyps(1)] by simp
  from Step.hyps(2) Step.IH w show ?case
    by (cases rule: step_cases) (auto simp: selecting_def split: option.splits)
qed

text \<open>What the selects have taken, read off the schedule.\<close>

lemma history_of_schedule:
  assumes "exec sched (start w city) = Some s"
  shows "length (filter (\<lambda>e. e = Timeout) (seen s)) = count_list sched TimerFires
       \<and> ((\<exists>x. Temp x \<in> set (seen s)) \<longrightarrow> (\<exists>d. RecvTemp d \<in> set sched))
       \<and> ((\<exists>x. Err x \<in> set (seen s)) \<longrightarrow> (\<exists>d. RecvErr d \<in> set sched))"
  using assms
proof (induction rule: exec_induct)
  case Start
  show ?case by (simp add: start_def)
next
  case (Step cs t c t')
  from Step.hyps(2) Step.IH show ?case
    by (cases rule: step_cases) auto
qed

lemma timers_run:
  assumes "\<not> crashed s" and "returned s = None" and "loop_i s + n \<le> length (providers s)"
  shows "exec (replicate n TimerFires) s =
           Some (s\<lparr>loop_i := loop_i s + n, seen := seen s @ replicate n Timeout\<rparr>)"
  using assms
proof (induction n arbitrary: s)
  case 0
  then show ?case by simp
next
  case (Suc n)
  let ?t = "s\<lparr>loop_i := loop_i s + 1, seen := seen s @ [Timeout]\<rparr>"
  have st: "step s TimerFires = Some ?t"
    using Suc.prems by (simp add: step_def timer_fires_def selecting_def)
  have "exec (replicate n TimerFires) ?t =
          Some (?t\<lparr>loop_i := loop_i ?t + n, seen := seen ?t @ replicate n Timeout\<rparr>)"
    using Suc.prems by (intro Suc.IH) auto
  then show ?case using st by (simp add: replicate_app_Cons_same)
qed

lemma attempts_of_schedule:
  assumes "exec sched (start w city) = Some s"
  shows "length (seen s) = length (filter is_select sched)"
  using assms
proof (induction rule: exec_induct)
  case Start
  show ?case by (simp add: start_def)
next
  case (Step cs t c t')
  from Step.hyps(2) Step.IH show ?case
    by (cases rule: step_cases) auto
qed



lemmas run_defs =
  start_def step_def publish_def recv_temp_def recv_err_def timer_fires_def return_average_def
  selecting_def make_chan_def send_def recv_def deadline_def fixed_def failing_def

lemma temps_and_timeouts:
  "\<forall>x. Err x \<notin> set evs \<Longrightarrow>
     length (temps_of evs) + length (filter (\<lambda>e. e = Timeout) evs) = length evs"
  by (induction evs rule: temps_of.induct) auto

lemma after_return:
  assumes "exec cs s = Some s'" and "returned s = Some r"
  shows "returned s' = Some r \<and> seen s' = seen s \<and> loop_sum s' = loop_sum s \<and> loop_i s' = loop_i s"
  using assms
proof (induction cs arbitrary: s)
  case Nil
  then show ?case by simp
next
  case (Cons c cs)
  then obtain t where t: "step s c = Some t" "exec cs t = Some s'"
    by (auto split: option.splits)
  from t(1) Cons.prems(2) have "returned t = Some r \<and> seen t = seen s \<and> loop_sum t = loop_sum s \<and> loop_i t = loop_i s"
    by (cases rule: step_cases) (auto simp: selecting_def)
  then show ?case using Cons.IH [OF t(2)] by simp
qed

lemma failure_of_provider:
  assumes "j < length w" and "(w ! j) city = Returns (k, Some err)"
  shows "err \<in> set (failures w city)"
proof -
  have "w ! j \<in> set w" using assms(1) by simp
  moreover have "err \<in> set (failure ((w ! j) city))" using assms(2) by (simp add: failure_def)
  ultimately show ?thesis unfolding failures_def by auto
qed

lemma errors_provenance:
  assumes "exec sched (start w city) = Some s"
  shows "set (buf (errs s)) \<subseteq> set (failures w city)"
  using assms
proof (induction rule: exec_induct)
  case Start
  show ?case by (simp add: start_def make_chan_def)
next
  case (Step cs t c t')
  note fr = frame [OF Step.hyps(1)]
  from Step.hyps(2) Step.IH show ?case
  proof (cases rule: step_cases)
    case (PublishErr j p k err)
    then have "p = w ! j" "j < length w" using fr by auto
    then have "err \<in> set (failures w city)"
      using PublishErr fr failure_of_provider [of j w city k err] by simp
    then show ?thesis using PublishErr Step.IH by auto
  qed auto
qed

lemma publishes_once:
  assumes "exec sched (start w city) = Some s" and "j < length w"
  shows "count_list sched (Publish j) \<le> 1
       \<and> (tasks s ! j = Finished \<longrightarrow> count_list sched (Publish j) = 1)
       \<and> (tasks s ! j \<noteq> Finished \<and> \<not> crashed s \<longrightarrow> count_list sched (Publish j) = 0)"
  using assms(1)
proof (induction rule: exec_induct)
  case Start
  show ?case using assms(2) by (simp add: start_def)
next
  case (Step cs t c t')
  from Step.hyps(2) Step.IH show ?case
  proof (cases rule: step_cases)
    case (Panic j' p msg)
    then show ?thesis using Step.IH by (cases "j' = j") auto
  next
    case (PublishErr j' p k err)
    then show ?thesis using Step.IH by (cases "j' = j") auto
  next
    case (PublishTemp j' p k)
    then show ?thesis using Step.IH by (cases "j' = j") auto
  qed auto
qed

lemma step_providers:
  assumes "step s c = Some s'"
  shows "providers s' = providers s"
  using assms by (cases rule: step_cases) auto

lemma unknown_city_openWeatherMap:
  "openWeatherMap_temperature unknown_city_net ''Atlantis'' = Returns (fzero, None)"
  by (simp add: openWeatherMap_temperature_def unknown_city_net_def field_def)

lemma unknown_city_weatherUnderground:
  "weatherUnderground_temperature unknown_city_net ''wu-key'' ''Atlantis''
     = Returns (Finite False 4805305618032230 (- 44), None)"
  by (simp add: weatherUnderground_temperature_def unknown_city_net_def field_def
      kelvin_273_15_bits sum_273_15 del: fadd.simps)

lemmas call_defs =
  start_def step_def publish_def recv_temp_def recv_err_def timer_fires_def return_average_def
  selecting_def make_chan_def send_def recv_def deadline_def

section \<open>The adapters\<close>

text \<open>An adapter returns an error exactly where \<open>http.Get\<close> or \<open>Decode\<close> returned it.\<close>

lemma openWeatherMap_error:
  "openWeatherMap_temperature net city = Returns (t, Some err) \<longleftrightarrow>
     t = fzero \<and>
     (get_openweathermap net (''http://api.openweathermap.org/data/2.5/weather?q='' @ city) = Inl err
      \<or> get_openweathermap net (''http://api.openweathermap.org/data/2.5/weather?q='' @ city)
           = Inr (Undecodable err))"
  by (auto simp: openWeatherMap_temperature_def split: sum.splits body.splits)

lemma weatherUnderground_error:
  "weatherUnderground_temperature net apiKey city = Returns (t, Some err) \<longleftrightarrow>
     t = fzero \<and>
     (get_wunderground net
         (''http://api.wunderground.com/api/'' @ apiKey @ ''/conditions/q/'' @ city @ ''.json'') = Inl err
      \<or> get_wunderground net
         (''http://api.wunderground.com/api/'' @ apiKey @ ''/conditions/q/'' @ city @ ''.json'')
           = Inr (Undecodable err))"
  by (auto simp: weatherUnderground_temperature_def Let_def split: sum.splits body.splits)

lemma forecastIo_geocode_error:
  assumes "get_geocode net (''https://maps.googleapis.com/maps/api/geocode/json?address='' @ city) = Inl err
     \<or> get_geocode net (''https://maps.googleapis.com/maps/api/geocode/json?address='' @ city)
          = Inr (Undecodable err)"
  shows "forecastIo_temperature net apiKey city = Returns (fzero, Some err)"
  using assms by (auto simp: forecastIo_temperature_def)

lemma forecastIo_forecast_error:
  assumes "get_geocode net (''https://maps.googleapis.com/maps/api/geocode/json?address='' @ city)
          = Inr (Document (r0 # rs))"
    and "get_forecast net (''https://api.forecast.io/forecast/'' @ apiKey @ ''/''
            @ format_float net (field (lat r0)) @ '','' @ format_float net (field (lng r0))
            @ ''?units=si'') = Inl err
     \<or> get_forecast net (''https://api.forecast.io/forecast/'' @ apiKey @ ''/''
            @ format_float net (field (lat r0)) @ '','' @ format_float net (field (lng r0))
            @ ''?units=si'') = Inr (Undecodable err)"
  shows "forecastIo_temperature net apiKey city = Returns (fzero, Some err)"
  using assms by (auto simp: forecastIo_temperature_def Let_def)

lemma forecastIo_panics:
  assumes "get_geocode net (''https://maps.googleapis.com/maps/api/geocode/json?address='' @ city)
          = Inr (Document [])"
  shows "forecastIo_temperature net apiKey city = Panics ''runtime error: index out of range''"
  using assms by (simp add: forecastIo_temperature_def)

lemma example_mw_eq:
  "example_mw = [openWeatherMap_temperature unknown_city_net,
                 weatherUnderground_temperature unknown_city_net ''wu-key'',
                 forecastIo_temperature unknown_city_net ''fio-key'']"
  by (simp add: example_mw_def getMultiWeatherProvider_def example_files_def)

section \<open>Runs in which every provider succeeds\<close>

lemma errors_seen_provenance:
  assumes "exec sched (start w city) = Some s"
  shows "\<forall>x. Err x \<in> set (seen s) \<longrightarrow> x \<in> set (failures w city)"
  using assms
proof (induction rule: exec_induct)
  case Start
  show ?case by (simp add: start_def)
next
  case (Step cs t c t')
  note ep = errors_provenance [OF Step.hyps(1)]
  from Step.hyps(2) Step.IH show ?case
  proof (cases rule: step_cases)
    case (RecvErr d e es)
    then have "e \<in> set (failures w city)" using ep by auto
    then show ?thesis using RecvErr Step.IH by auto
  qed auto
qed

lemma all_succeed:
  assumes "map (\<lambda>p. p city) w = map (\<lambda>t. Returns (t, None)) ts"
  shows "readings w city = ts" and "failures w city = []" and "length ts = length w"
    and "\<And>j. j < length w \<Longrightarrow> (w ! j) city = Returns (ts ! j, None)"
proof -
  have "readings w city = concat (map reading (map (\<lambda>p. p city) w))"
    by (simp add: readings_def comp_def)
  also have "\<dots> = concat (map (\<lambda>t. [t]) ts)"
    unfolding assms by (simp add: comp_def reading_def)
  finally show "readings w city = ts" by simp
  have "failures w city = concat (map failure (map (\<lambda>p. p city) w))"
    by (simp add: failures_def comp_def)
  also have "\<dots> = concat (map (\<lambda>t. []) ts)"
    unfolding assms by (simp add: comp_def failure_def)
  finally show "failures w city = []" by simp
  show len: "length ts = length w" using assms by (metis length_map)
  show "(w ! j) city = Returns (ts ! j, None)" if "j < length w" for j
  proof -
    have "(map (\<lambda>p. p city) w) ! j = (map (\<lambda>t. Returns (t, None)) ts) ! j" using assms by simp
    then show ?thesis using that len by simp
  qed
qed

lemma receive_all:
  assumes "\<not> crashed s" and "returned s = None" and "buf (temps s) = xs @ rest"
    and "loop_i s + length xs \<le> length (providers s)"
  shows "\<exists>s'. exec (replicate (length xs) (RecvTemp 0)) s = Some s'
           \<and> loop_sum s' = foldl fadd (loop_sum s) xs \<and> loop_i s' = loop_i s + length xs
           \<and> returned s' = None \<and> \<not> crashed s' \<and> providers s' = providers s
           \<and> seen s' = seen s @ map Temp xs \<and> buf (temps s') = rest"
  using assms
proof (induction xs arbitrary: s)
  case Nil
  then show ?case by simp
next
  case (Cons x xs)
  let ?t = "s\<lparr>temps := (temps s)\<lparr>buf := xs @ rest\<rparr>, loop_sum := fadd (loop_sum s) x,
              loop_i := loop_i s + 1, seen := seen s @ [Temp x]\<rparr>"
  have st: "step s (RecvTemp 0) = Some ?t"
    using Cons.prems by (simp add: step_def recv_temp_def recv_def selecting_def)
  have "\<exists>s'. exec (replicate (length xs) (RecvTemp 0)) ?t = Some s'
           \<and> loop_sum s' = foldl fadd (loop_sum ?t) xs \<and> loop_i s' = loop_i ?t + length xs
           \<and> returned s' = None \<and> \<not> crashed s' \<and> providers s' = providers ?t
           \<and> seen s' = seen ?t @ map Temp xs \<and> buf (temps s') = rest"
    using Cons.prems by (intro Cons.IH) auto
  then show ?case using st by auto
qed

lemma publish_all:
  assumes "map (\<lambda>p. p city) w = map (\<lambda>t. Returns (t, None)) ts" and "j \<le> length w"
  shows "exec (map Publish [0..<j]) (start w city) =
           Some ((start w city)\<lparr>temps := \<lparr>buf = take j ts, cap = length w\<rparr>,
                                 tasks := replicate j Finished @ map Running (drop j w)\<rparr>)"
  using assms(2)
proof (induction j)
  case 0
  show ?case by (simp add: start_def make_chan_def)
next
  case (Suc j)
  note as = all_succeed [OF assms(1)]
  let ?s = "(start w city)\<lparr>temps := \<lparr>buf = take j ts, cap = length w\<rparr>,
                           tasks := replicate j Finished @ map Running (drop j w)\<rparr>"
  have j: "j < length w" using Suc.prems by simp
  have ex: "exec (map Publish [0..<j]) (start w city) = Some ?s"
    using Suc by simp
  have tj: "tasks ?s ! j = Running (w ! j)"
    using j by (simp add: nth_append)
  have upd: "(replicate j Finished @ map Running (drop j w))[j := Finished]
               = replicate (Suc j) Finished @ map Running (drop (Suc j) w)"
    using j by (simp add: list_update_append Cons_nth_drop_Suc [symmetric] replicate_append_same)
  have tk: "take j ts @ [ts ! j] = take (Suc j) ts"
    using j as(3) by (simp add: take_Suc_conv_app_nth)
  have "step ?s (Publish j) =
          Some ((start w city)\<lparr>temps := \<lparr>buf = take (Suc j) ts, cap = length w\<rparr>,
                                 tasks := replicate (Suc j) Finished @ map Running (drop (Suc j) w)\<rparr>)"
    using j tj as(4) [OF j] as(3) upd tk
    by (simp add: step_def publish_def send_def start_def)
  then show ?case using ex by (simp add: exec_append)
qed

lemma in_order_run:
  assumes "map (\<lambda>p. p city) w = map (\<lambda>t. Returns (t, None)) ts"
  shows "multiWeatherProvider_temperature w city
           (map Publish [0..<length w] @ replicate (length w) (RecvTemp 0) @ [Return])
         = Some (fdiv (foldl fadd fzero ts) (float64_of_nat (length w)), None)"
proof -
  note as = all_succeed [OF assms]
  let ?s1 = "(start w city)\<lparr>temps := \<lparr>buf = take (length w) ts, cap = length w\<rparr>,
                tasks := replicate (length w) Finished @ map Running (drop (length w) w)\<rparr>"
  have e1: "exec (map Publish [0..<length w]) (start w city) = Some ?s1"
    by (rule publish_all [OF assms]) simp
  have "\<exists>s'. exec (replicate (length ts) (RecvTemp 0)) ?s1 = Some s'
           \<and> loop_sum s' = foldl fadd (loop_sum ?s1) ts \<and> loop_i s' = loop_i ?s1 + length ts
           \<and> returned s' = None \<and> \<not> crashed s' \<and> providers s' = providers ?s1
           \<and> seen s' = seen ?s1 @ map Temp ts \<and> buf (temps s') = []"
    using as(3) by (intro receive_all) (auto simp: start_def)
  then obtain s2 where s2: "exec (replicate (length w) (RecvTemp 0)) ?s1 = Some s2"
      "loop_sum s2 = foldl fadd fzero ts" "loop_i s2 = length w"
      "returned s2 = None" "\<not> crashed s2" "providers s2 = w"
    using as(3) by (auto simp: start_def)
  have "step s2 Return = Some (s2\<lparr>returned := Some (fdiv (foldl fadd fzero ts) (float64_of_nat (length w)), None)\<rparr>)"
    using s2 by (simp add: step_def return_average_def)
  then show ?thesis
    using e1 s2(1) by (simp add: multiWeatherProvider_temperature_def exec_append)
qed

section \<open>All providers succeed\<close>

text \<open>
  Claim C1 says that when every provider succeeds, with \<open>t1..tN\<close>, and every outcome
  arrives before its deadline, the call returns \<open>(t1 + ... + tN) / N\<close>. The call adds
  the temperatures in the order in which they arrive, and float64 addition is not
  associative. Three providers report \<open>0.1\<close>, \<open>0.2\<close> and \<open>0.3\<close>, the outcomes
  arrive in the order third, second, first, and no timer fires: the call returns
  \<open>0.19999999999999998\<close>. The value \<open>(0.1 + 0.2 + 0.3) / 3\<close> is
  \<open>0.20000000000000004\<close> in float64 arithmetic, and the float64 nearest to the exact
  average is \<open>0.2\<close>, the one between the two.
\<close>

theorem in_order_average_counterexample:
  "map (\<lambda>p. p ''Oslo'') [fixed kelvin_0_1, fixed kelvin_0_2, fixed kelvin_0_3]
     = map (\<lambda>t. Returns (t, None)) [kelvin_0_1, kelvin_0_2, kelvin_0_3]
   \<and> TimerFires \<notin> set [Publish 2, Publish 1, Publish 0, RecvTemp 1, RecvTemp 1, RecvTemp 1, Return]
   \<and> multiWeatherProvider_temperature [fixed kelvin_0_1, fixed kelvin_0_2, fixed kelvin_0_3] ''Oslo''
       [Publish 2, Publish 1, Publish 0, RecvTemp 1, RecvTemp 1, RecvTemp 1, Return]
     = Some (Finite False 7205759403792793 (- 55), None)
   \<and> fdiv (foldl fadd fzero [kelvin_0_1, kelvin_0_2, kelvin_0_3]) (float64_of_nat 3)
     = Finite False 7205759403792795 (- 55)
   \<and> float64_of_decimal 2 1 = Finite False 7205759403792794 (- 55)"
proof -
  let ?w = "[fixed kelvin_0_1, fixed kelvin_0_2, fixed kelvin_0_3]"
  have all: "map (\<lambda>p. p ''Oslo'') ?w = map (\<lambda>t. Returns (t, None)) [kelvin_0_1, kelvin_0_2, kelvin_0_3]"
    by (simp add: fixed_def)
  have nt: "TimerFires \<notin> set [Publish 2, Publish 1, Publish 0, RecvTemp 1, RecvTemp 1, RecvTemp 1, Return]"
    by simp
  have len: "length ?w = 3" by simp
  have n: "float64_of_nat (length ?w) = Finite False 6755399441055744 (- 51)"
    unfolding len by (rule float64_of_nat_3)
  have a: "fdiv (fadd (fadd (fadd fzero kelvin_0_3) kelvin_0_2) kelvin_0_1)
               (Finite False 6755399441055744 (- 51))
             = Finite False 7205759403792793 (- 55)"
    unfolding kelvin_0_1_bits kelvin_0_2_bits kelvin_0_3_bits
    by (simp only: sum_0_3 sum_0_3_0_2 sum_0_3_0_2_0_1 average_0_3_0_2_0_1)
  have "multiWeatherProvider_temperature ?w ''Oslo''
       [Publish 2, Publish 1, Publish 0, RecvTemp 1, RecvTemp 1, RecvTemp 1, Return]
     = Some (fdiv (fadd (fadd (fadd fzero kelvin_0_3) kelvin_0_2) kelvin_0_1) (float64_of_nat (length ?w)), None)"
    by (simp add: multiWeatherProvider_temperature_def run_defs del: fadd.simps fdiv.simps)
  then have run: "multiWeatherProvider_temperature ?w ''Oslo''
       [Publish 2, Publish 1, Publish 0, RecvTemp 1, RecvTemp 1, RecvTemp 1, Return]
     = Some (Finite False 7205759403792793 (- 55), None)"
    unfolding n a .
  have "fdiv (foldl fadd fzero [kelvin_0_1, kelvin_0_2, kelvin_0_3]) (float64_of_nat 3)
      = fdiv (fadd (fadd (fadd fzero kelvin_0_1) kelvin_0_2) kelvin_0_3) (Finite False 6755399441055744 (- 51))"
    unfolding float64_of_nat_3 by simp
  also have "\<dots> = Finite False 7205759403792795 (- 55)"
    unfolding kelvin_0_1_bits kelvin_0_2_bits kelvin_0_3_bits
    by (simp only: sum_0_1 sum_0_1_0_2 sum_0_1_0_2_0_3 average_0_1_0_2_0_3)
  finally have avg: "fdiv (foldl fadd fzero [kelvin_0_1, kelvin_0_2, kelvin_0_3]) (float64_of_nat 3)
      = Finite False 7205759403792795 (- 55)" .
  have near: "float64_of_decimal 2 1 = Finite False 7205759403792794 (- 55)"
    using kelvin_0_2_bits by (simp only: kelvin_0_2_def)
  show ?thesis using all nt run avg near by (intro conjI)
qed

text \<open>
  Claim C1 as amended. Let every provider's call succeed, with the temperatures \<open>ts\<close>
  in the order of \<open>w\<close>, and take a run in which no timer fires and the call has
  returned. Then the selects have received exactly the temperatures \<open>ts\<close>, in the
  order of their arrival, and the call returned their float64 sum, added in that order
  from \<open>0.0\<close>, divided by \<open>float64(len(w))\<close>, with a \<open>nil\<close> error. Such a run
  exists, and when the outcomes arrive in the order of \<open>w\<close> the value returned is
  \<open>(t1 + ... + tN) / N\<close>, added from left to right.
\<close>

theorem all_succeed_average:
  assumes "map (\<lambda>p. p city) w = map (\<lambda>t. Returns (t, None)) ts"
    and "exec sched (start w city) = Some s" and "returned s = Some r"
    and "TimerFires \<notin> set sched"
  shows "mset (temps_of (seen s)) = mset ts
       \<and> r = (fdiv (foldl fadd fzero (temps_of (seen s))) (float64_of_nat (length ts)), None)
       \<and> multiWeatherProvider_temperature w city
           (map Publish [0..<length ts] @ replicate (length ts) (RecvTemp 0) @ [Return])
         = Some (fdiv (foldl fadd fzero ts) (float64_of_nat (length ts)), None)"
proof -
  note as = all_succeed [OF assms(1)]
  note ls = loop_state [OF assms(2)]
  note hs = history_of_schedule [OF assms(2)]
  have noerr: "\<forall>x. Err x \<notin> set (seen s)"
    using errors_seen_provenance [OF assms(2)] as(2) by simp
  have len: "length (seen s) = length w"
    and r: "r = (fdiv (loop_sum s) (float64_of_nat (length w)), None)"
    using ls assms(3) noerr by auto
  have "count_list sched TimerFires = 0" using assms(4) by simp
  then have "length (filter (\<lambda>e. e = Timeout) (seen s)) = 0" using hs by simp
  then have n: "length (temps_of (seen s)) = length ts"
    using temps_and_timeouts [OF noerr] len as(3) by simp
  have "mset (temps_of (seen s)) + (mset (buf (temps s)) + mset (pending city (tasks s))) = mset ts"
    using provenance [OF assms(2)] as(1) by (simp add: add.assoc)
  then have sub: "mset (temps_of (seen s)) \<subseteq># mset ts"
    by (metis mset_subset_eq_add_left)
  have "size (mset (temps_of (seen s))) = size (mset ts)" using n by simp
  then have a: "mset (temps_of (seen s)) = mset ts"
    using sub by (metis mset_subset_size subset_mset.le_neq_trans less_irrefl)
  have b: "r = (fdiv (foldl fadd fzero (temps_of (seen s))) (float64_of_nat (length ts)), None)"
    using r ls as(3) by simp
  show ?thesis using a b in_order_run [OF assms(1)] as(3) by simp
qed

theorem all_succeed_average_witness:
  "\<exists>s. map (\<lambda>p. p ''Oslo'') [fixed kelvin_300_0, fixed kelvin_301_5, fixed kelvin_298_5]
        = map (\<lambda>t. Returns (t, None)) [kelvin_300_0, kelvin_301_5, kelvin_298_5]
     \<and> exec [Publish 2, Publish 0, RecvTemp 120, Publish 1, RecvTemp 15, RecvTemp 640, Return]
          (start [fixed kelvin_300_0, fixed kelvin_301_5, fixed kelvin_298_5] ''Oslo'') = Some s
     \<and> TimerFires \<notin> set [Publish 2, Publish 0, RecvTemp 120, Publish 1, RecvTemp 15, RecvTemp 640, Return]
     \<and> temps_of (seen s) = [kelvin_298_5, kelvin_300_0, kelvin_301_5]
     \<and> returned s = Some (kelvin_300_0, None)
     \<and> multiWeatherProvider_temperature [fixed kelvin_300_0, fixed kelvin_301_5, fixed kelvin_298_5] ''Oslo''
          (map Publish [0..<3] @ replicate 3 (RecvTemp 0) @ [Return])
         = Some (kelvin_300_0, None)"
proof -
  let ?w = "[fixed kelvin_300_0, fixed kelvin_301_5, fixed kelvin_298_5]"
  let ?ts = "[kelvin_300_0, kelvin_301_5, kelvin_298_5]"
  let ?sched = "[Publish 2, Publish 0, RecvTemp 120, Publish 1, RecvTemp 15, RecvTemp 640, Return]"
  have all: "map (\<lambda>p. p ''Oslo'') ?w = map (\<lambda>t. Returns (t, None)) ?ts"
    by (simp add: fixed_def)
  have "\<exists>s r. exec ?sched (start ?w ''Oslo'') = Some s \<and> returned s = Some r
      \<and> temps_of (seen s) = [kelvin_298_5, kelvin_300_0, kelvin_301_5]"
    by (simp add: run_defs)
  then obtain s r where s: "exec ?sched (start ?w ''Oslo'') = Some s" "returned s = Some r"
      "temps_of (seen s) = [kelvin_298_5, kelvin_300_0, kelvin_301_5]"
    by blast
  have nt: "TimerFires \<notin> set ?sched" by simp
  note t = all_succeed_average [OF all s(1,2) nt]
  have len: "length ?ts = 3" by simp
  have avg: "fdiv (foldl fadd fzero ?ts) (float64_of_nat 3) = kelvin_300_0"
    by (simp add: kelvin_300_0_bits kelvin_301_5_bits kelvin_298_5_bits sum_300_0 sum_601_5 sum_900_0
        float64_of_nat_3 average_300_0 del: fadd.simps fdiv.simps)
  have avg': "fdiv (fadd (fadd (fadd fzero kelvin_298_5) kelvin_300_0) kelvin_301_5) (float64_of_nat 3)
      = kelvin_300_0"
    by (simp add: kelvin_300_0_bits kelvin_301_5_bits kelvin_298_5_bits sum_298_5 sum_298_5_300_0
        sum_598_5_301_5 float64_of_nat_3 average_300_0 del: fadd.simps fdiv.simps)
  have a: "returned s = Some (kelvin_300_0, None)"
    using t s(2,3) unfolding len by (simp add: avg' del: fadd.simps fdiv.simps)
  have b: "multiWeatherProvider_temperature ?w ''Oslo''
          (map Publish [0..<3] @ replicate 3 (RecvTemp 0) @ [Return]) = Some (kelvin_300_0, None)"
    using t unfolding len avg by simp
  show ?thesis using all s(1,3) nt a b by blast
qed

section \<open>The first error wins\<close>

text \<open>
  Claim C2. In any state a call can reach while its loop is inside a select, if the
  \<open>errs\<close> channel holds an error \<open>e\<close> at its head and the select takes that case,
  the call returns \<open>(0, e)\<close> at once: \<open>e\<close> is the very value a provider's
  \<open>temperature\<close> returned, not wrapped and not replaced. The temperatures still
  buffered stay where they are and so do the other errors; whatever the goroutines do
  afterwards, the returned pair stays and no select takes anything more.
\<close>

theorem first_error_wins:
  assumes "exec sched (start w city) = Some s" and "selecting s" and "\<not> crashed s"
    and "buf (errs s) = e # es" and "d \<le> deadline"
  shows "\<exists>s'. step s (RecvErr d) = Some s'
          \<and> returned s' = Some (fzero, Some e)
          \<and> multiWeatherProvider_temperature w city (sched @ [RecvErr d]) = Some (fzero, Some e)
          \<and> e \<in> set (failures w city)
          \<and> buf (temps s') = buf (temps s) \<and> buf (errs s') = es
          \<and> (\<forall>cs s''. exec cs s' = Some s'' \<longrightarrow>
                returned s'' = Some (fzero, Some e) \<and> seen s'' = seen s @ [Err e])"
proof -
  let ?s' = "s\<lparr>errs := (errs s)\<lparr>buf := es\<rparr>, returned := Some (fzero, Some e),
               seen := seen s @ [Err e]\<rparr>"
  have st: "step s (RecvErr d) = Some ?s'"
    using assms(2-5) by (simp add: step_def recv_err_def recv_def)
  have a: "multiWeatherProvider_temperature w city (sched @ [RecvErr d]) = Some (fzero, Some e)"
    using assms(1) st by (simp add: multiWeatherProvider_temperature_def exec_append)
  have b: "e \<in> set (failures w city)"
    using errors_provenance [OF assms(1)] assms(4) by auto
  have c: "returned s'' = Some (fzero, Some e) \<and> seen s'' = seen s @ [Err e]"
    if "exec cs ?s' = Some s''" for cs s''
    using after_return [OF that, of "(fzero, Some e)"] by simp
  have d: "buf (temps ?s') = buf (temps s) \<and> buf (errs ?s') = es" by simp
  have e: "returned ?s' = Some (fzero, Some e)" by simp
  show ?thesis
    by (rule exI [of _ ?s']) (use st a b c d e in blast)
qed

theorem first_error_wins_witness:
  "\<exists>s s'. exec [Publish 1, Publish 0]
             (start [fixed kelvin_300_0, failing (Error ''503 Service Unavailable''), fixed kelvin_298_5]
                ''Oslo'') = Some s
     \<and> selecting s \<and> \<not> crashed s
     \<and> buf (errs s) = [Error ''503 Service Unavailable'']
     \<and> (5::nat) \<le> deadline
     \<and> step s (RecvErr 5) = Some s'
     \<and> returned s' = Some (fzero, Some (Error ''503 Service Unavailable''))
     \<and> buf (temps s') = [kelvin_300_0]
     \<and> multiWeatherProvider_temperature
          [fixed kelvin_300_0, failing (Error ''503 Service Unavailable''), fixed kelvin_298_5] ''Oslo''
          ([Publish 1, Publish 0] @ [RecvErr 5])
         = Some (fzero, Some (Error ''503 Service Unavailable''))"
proof -
  let ?w = "[fixed kelvin_300_0, failing (Error ''503 Service Unavailable''), fixed kelvin_298_5]"
  have "\<exists>s. exec [Publish 1, Publish 0] (start ?w ''Oslo'') = Some s
      \<and> selecting s \<and> \<not> crashed s \<and> buf (errs s) = [Error ''503 Service Unavailable'']
      \<and> buf (temps s) = [kelvin_300_0]"
    by (simp add: run_defs)
  then obtain s where s: "exec [Publish 1, Publish 0] (start ?w ''Oslo'') = Some s"
      "selecting s" "\<not> crashed s" "buf (errs s) = [Error ''503 Service Unavailable'']"
      "buf (temps s) = [kelvin_300_0]"
    by blast
  have d: "(5::nat) \<le> deadline" by (simp add: deadline_def)
  from first_error_wins [OF s(1-4) d] s d show ?thesis by auto
qed

section \<open>Timeouts leave the divisor alone\<close>

text \<open>
  Claim C3. Take a run in which the loop has made all its \<open>len(w)\<close> attempts, \<open>k\<close> of
  them ended on the timer and none received an error. Then the other \<open>len(w) - k\<close>
  attempts each received the temperature of a different provider, and the call returns
  (has returned already, or returns with its next step) the float64 sum of those
  \<open>len(w) - k\<close> temperatures divided by \<open>float64(len(w))\<close>, with a \<open>nil\<close> error. The
  divisor is the number of providers, not the number of temperatures received.
\<close>

theorem timeouts_keep_divisor:
  assumes "exec sched (start w city) = Some s" and "\<not> crashed s"
    and "\<forall>d. RecvErr d \<notin> set sched"
    and "count_list sched TimerFires = k"
    and "length (filter is_select sched) = length w"
  shows "length (temps_of (seen s)) + k = length w
       \<and> mset (temps_of (seen s)) \<subseteq># mset (readings w city)
       \<and> (returned s = Some (fdiv (foldl fadd fzero (temps_of (seen s))) (float64_of_nat (length w)), None)
          \<or> (\<exists>s'. step s Return = Some s'
                \<and> returned s' = Some (fdiv (foldl fadd fzero (temps_of (seen s))) (float64_of_nat (length w)), None)))"
proof -
  note ls = loop_state [OF assms(1)]
  note hs = history_of_schedule [OF assms(1)]
  note fr = frame [OF assms(1)]
  have noerr: "\<forall>x. Err x \<notin> set (seen s)" using hs assms(3) by blast
  have len: "length (seen s) = length w"
    using attempts_of_schedule [OF assms(1)] assms(5) by simp
  have a: "length (temps_of (seen s)) + k = length w"
    using temps_and_timeouts [OF noerr] hs assms(4) len by simp
  have "mset (temps_of (seen s)) + (mset (buf (temps s)) + mset (pending city (tasks s)))
          = mset (readings w city)"
    using provenance [OF assms(1)] by (simp add: add.assoc)
  then have b: "mset (temps_of (seen s)) \<subseteq># mset (readings w city)"
    by (metis mset_subset_eq_add_left)
  let ?r = "(fdiv (foldl fadd fzero (temps_of (seen s))) (float64_of_nat (length w)), None)"
  have c: "returned s = Some ?r \<or> (\<exists>s'. step s Return = Some s' \<and> returned s' = Some ?r)"
  proof (cases "returned s")
    case None
    then have "loop_i s = length w" using ls len by simp
    then have "step s Return = Some (s\<lparr>returned := Some ?r\<rparr>)"
      using None assms(2) fr ls by (simp add: step_def return_average_def)
    then show ?thesis by simp
  next
    case (Some r)
    then show ?thesis using ls noerr by auto
  qed
  show ?thesis using a b c by blast
qed

theorem timeouts_keep_divisor_witness:
  "\<exists>s. exec [Publish 0, RecvTemp 40, Publish 2, RecvTemp 900, TimerFires, Return]
          (start [fixed kelvin_300_0, fixed kelvin_301_5, fixed kelvin_298_5] ''Oslo'') = Some s
     \<and> \<not> crashed s
     \<and> count_list [Publish 0, RecvTemp 40, Publish 2, RecvTemp 900, TimerFires, Return] TimerFires = 1
     \<and> length (filter is_select [Publish 0, RecvTemp 40, Publish 2, RecvTemp 900, TimerFires, Return]) = 3
     \<and> temps_of (seen s) = [kelvin_300_0, kelvin_298_5]
     \<and> returned s = Some (Finite False 7019282231721984 (- 45), None)
     \<and> fdiv (foldl fadd fzero [kelvin_300_0, kelvin_298_5]) (float64_of_nat 2)
          = Finite False 5264461673791488 (- 44)"
proof -
  let ?w = "[fixed kelvin_300_0, fixed kelvin_301_5, fixed kelvin_298_5]"
  let ?sched = "[Publish 0, RecvTemp 40, Publish 2, RecvTemp 900, TimerFires, Return]"
  have "\<exists>s r. exec ?sched (start ?w ''Oslo'') = Some s \<and> \<not> crashed s
      \<and> temps_of (seen s) = [kelvin_300_0, kelvin_298_5] \<and> returned s = Some r"
    by (simp add: run_defs)
  then obtain s r where s: "exec ?sched (start ?w ''Oslo'') = Some s" "\<not> crashed s"
      "temps_of (seen s) = [kelvin_300_0, kelvin_298_5]" "returned s = Some r"
    by blast
  have fin: "step s Return = None"
    using s(4) by (simp add: step_def return_average_def)
  have sum: "foldl fadd fzero [kelvin_300_0, kelvin_298_5] = Finite False 5264461673791488 (- 43)"
    by (simp add: kelvin_300_0_bits kelvin_298_5_bits sum_300_0 sum_598_5 del: fadd.simps)
  have len: "length ?w = 3" by simp
  have "returned s = Some (fdiv (foldl fadd fzero (temps_of (seen s))) (float64_of_nat (length ?w)), None)"
    using timeouts_keep_divisor [OF s(1) s(2), of 1] fin by simp
  then have "returned s = Some (Finite False 7019282231721984 (- 45), None)"
    unfolding s(3) sum len by (simp only: float64_of_nat_3 average_199_5)
  moreover have "fdiv (foldl fadd fzero [kelvin_300_0, kelvin_298_5]) (float64_of_nat 2)
          = Finite False 5264461673791488 (- 44)"
    unfolding sum by (simp add: float64_of_nat_2 average_299_25 del: fdiv.simps)
  ultimately show ?thesis using s by simp
qed

section \<open>Every attempt times out\<close>

text \<open>
  Claim C4. When no select of a call on a non-empty provider list receives anything,
  neither a temperature nor an error, and the call has returned, then all \<open>len(w)\<close>
  attempts ended on their timers and the call returned \<open>(0, nil)\<close>: the value zero
  with no error. Such a run exists for every non-empty list: the schedule in which the
  \<open>len(w)\<close> timers fire and the call returns. (For the empty list the loop body never
  runs and the quotient is \<open>0.0 / 0.0\<close>.)
\<close>

theorem all_timeouts_return_zero:
  assumes "w \<noteq> []"
    and "exec sched (start w city) = Some s" and "returned s = Some r"
    and "\<forall>d. RecvTemp d \<notin> set sched" and "\<forall>d. RecvErr d \<notin> set sched"
  shows "r = (fzero, None)
       \<and> seen s = replicate (length w) Timeout
       \<and> count_list sched TimerFires = length w
       \<and> multiWeatherProvider_temperature w city (replicate (length w) TimerFires @ [Return])
           = Some (fzero, None)"
proof -
  note ls = loop_state [OF assms(2)]
  note hs = history_of_schedule [OF assms(2)]
  have ev: "e = Timeout" if "e \<in> set (seen s)" for e
  proof (cases e)
    case (Temp x)
    then have "\<exists>x. Temp x \<in> set (seen s)" using that by blast
    then show ?thesis using hs assms(4) by blast
  next
    case (Err x)
    then have "\<exists>x. Err x \<in> set (seen s)" using that by blast
    then show ?thesis using hs assms(5) by blast
  next
    case Timeout
    then show ?thesis .
  qed
  then have all: "seen s = replicate (length (seen s)) Timeout"
    by (simp add: replicate_length_same)
  have noerr: "\<forall>x. Err x \<notin> set (seen s)" using ev by blast
  have len: "length (seen s) = length w"
    and r: "r = (fdiv (loop_sum s) (float64_of_nat (length w)), None)"
    using ls assms(3) noerr by auto
  have "temps_of (replicate n Timeout) = []" for n by (induction n) auto
  then have "temps_of (seen s) = []" using all by metis
  then have "loop_sum s = fzero" using ls by simp
  then have a: "r = (fzero, None)"
    using r zero_over_count [of "length w"] assms(1) by simp
  have b: "seen s = replicate (length w) Timeout" using all len by simp
  have "filter (\<lambda>e. e = Timeout) (seen s) = seen s" using ev by (simp add: filter_id_conv)
  then have c: "count_list sched TimerFires = length w" using hs len by simp
  let ?s0 = "start w city"
  let ?t = "?s0\<lparr>loop_i := loop_i ?s0 + length w, seen := seen ?s0 @ replicate (length w) Timeout\<rparr>"
  have "exec (replicate (length w) TimerFires) ?s0 = Some ?t"
    by (intro timers_run) (auto simp: start_def)
  moreover have "step ?t Return = Some (?t\<lparr>returned := Some (fdiv fzero (float64_of_nat (length w)), None)\<rparr>)"
    by (simp add: step_def return_average_def start_def)
  ultimately have d: "multiWeatherProvider_temperature w city (replicate (length w) TimerFires @ [Return])
           = Some (fzero, None)"
    using zero_over_count [of "length w"] assms(1)
    by (simp add: multiWeatherProvider_temperature_def exec_append)
  show ?thesis using a b c d by blast
qed

theorem all_timeouts_return_zero_witness:
  "[fixed kelvin_300_0, fixed kelvin_301_5, fixed kelvin_298_5] \<noteq> []
   \<and> (\<exists>s. exec [TimerFires, TimerFires, TimerFires, Publish 0, Return, Publish 2]
            (start [fixed kelvin_300_0, fixed kelvin_301_5, fixed kelvin_298_5] ''Oslo'') = Some s
        \<and> returned s = Some (fzero, None)
        \<and> seen s = replicate 3 Timeout)"
proof -
  let ?w = "[fixed kelvin_300_0, fixed kelvin_301_5, fixed kelvin_298_5]"
  let ?sched = "[TimerFires, TimerFires, TimerFires, Publish 0, Return, Publish 2]"
  have "\<exists>s r. exec ?sched (start ?w ''Oslo'') = Some s \<and> returned s = Some r"
    by (simp add: run_defs)
  then obtain s r where s: "exec ?sched (start ?w ''Oslo'') = Some s" "returned s = Some r"
    by blast
  have "r = (fzero, None) \<and> seen s = replicate (length ?w) Timeout"
    using all_timeouts_return_zero [OF _ s] by simp
  then show ?thesis using s by (auto simp: numeral_3_eq_3)
qed

section \<open>Termination of the call\<close>




section \<open>An empty geocoding result\<close>

text \<open>
  Claim C6 says that every adapter answers a response that does not parse, or that
  lacks the structure it expects, with an error value and never with a crash. For a
  body that does not decode this is so (the lemmas on the adapters' errors above). It
  fails for forecastIo on a geocoding response whose \<open>results\<close> array is empty: the
  index expression \<open>location.Results[0]\<close> panics. The evaluation below is that
  input: the geocoder knows no such city, \<open>forecastIo.temperature\<close> panics, and in a
  call of the aggregator built by \<open>getMultiWeatherProvider\<close> the panic of that
  goroutine ends the process before the call has returned.
\<close>

theorem forecastIo_empty_results:
  "get_geocode unknown_city_net (''https://maps.googleapis.com/maps/api/geocode/json?address='' @ ''Atlantis'')
     = Inr (Document [])
   \<and> forecastIo_temperature unknown_city_net ''fio-key'' ''Atlantis''
     = Panics ''runtime error: index out of range''
   \<and> (\<exists>s. exec [Publish 0, Publish 2] (start example_mw ''Atlantis'') = Some s
         \<and> crashed s \<and> returned s = None \<and> (\<forall>c. step s c = None))"
proof -
  have g: "get_geocode unknown_city_net
      (''https://maps.googleapis.com/maps/api/geocode/json?address='' @ ''Atlantis'') = Inr (Document [])"
    by (simp add: unknown_city_net_def)
  note p = forecastIo_panics [OF g, of "''fio-key''"]
  have "\<exists>s. exec [Publish 0, Publish 2] (start example_mw ''Atlantis'') = Some s
         \<and> crashed s \<and> returned s = None"
    by (simp add: example_mw_eq call_defs unknown_city_openWeatherMap p)
  then obtain s where s: "exec [Publish 0, Publish 2] (start example_mw ''Atlantis'') = Some s"
    "crashed s" "returned s = None" by blast
  have "step s c = None" for c using s(2) by (simp add: step_def)
  then show ?thesis using g p s by blast
qed

section \<open>A body without the temperature field\<close>

text \<open>
  Claim C7 says that a body which decodes but lacks the temperature field makes the
  adapter return an error. It does not: the adapters never look whether the field was
  present. For the unknown city the body of openweathermap.org decodes, has no
  \<open>main.temp\<close>, and \<open>openWeatherMap.temperature\<close> returns \<open>(0, nil)\<close>.
\<close>

theorem missing_temperature_counterexample:
  "get_openweathermap unknown_city_net (''http://api.openweathermap.org/data/2.5/weather?q='' @ ''Atlantis'')
     = Inr (Document None)
   \<and> openWeatherMap_temperature unknown_city_net ''Atlantis'' = Returns (fzero, None)"
  by (simp add: unknown_city_openWeatherMap) (simp add: unknown_city_net_def)

text \<open>
  Claim C7 as amended. For a body that decodes but lacks the temperature field, the
  adapter reports success with the zero value of the field: \<open>openWeatherMap\<close> returns
  \<open>(0, nil)\<close> and \<open>weatherUnderground\<close> returns \<open>(0 + 273.15, nil)\<close>, which is
  \<open>273.15\<close>. An adapter returns an error exactly when \<open>http.Get\<close> or \<open>Decode\<close>
  returned that error, and the value beside it is then \<open>0\<close>.
\<close>

theorem missing_temperature_is_zero:
  "(get_openweathermap net (''http://api.openweathermap.org/data/2.5/weather?q='' @ city)
       = Inr (Document None)
     \<longrightarrow> openWeatherMap_temperature net city = Returns (fzero, None))
   \<and> (get_wunderground net
         (''http://api.wunderground.com/api/'' @ apiKey @ ''/conditions/q/'' @ city @ ''.json'')
       = Inr (Document None)
     \<longrightarrow> weatherUnderground_temperature net apiKey city
         = Returns (fadd fzero (float64_of_decimal 27315 2), None)
       \<and> fadd fzero (float64_of_decimal 27315 2) = Finite False 4805305618032230 (- 44))
   \<and> (openWeatherMap_temperature net city = Returns (t, Some err) \<longleftrightarrow>
        t = fzero \<and>
        (get_openweathermap net (''http://api.openweathermap.org/data/2.5/weather?q='' @ city) = Inl err
         \<or> get_openweathermap net (''http://api.openweathermap.org/data/2.5/weather?q='' @ city)
              = Inr (Undecodable err)))
   \<and> (weatherUnderground_temperature net apiKey city = Returns (t, Some err) \<longleftrightarrow>
        t = fzero \<and>
        (get_wunderground net
            (''http://api.wunderground.com/api/'' @ apiKey @ ''/conditions/q/'' @ city @ ''.json'') = Inl err
         \<or> get_wunderground net
            (''http://api.wunderground.com/api/'' @ apiKey @ ''/conditions/q/'' @ city @ ''.json'')
              = Inr (Undecodable err)))"
proof -
  have a: "openWeatherMap_temperature net city = Returns (fzero, None)"
    if "get_openweathermap net (''http://api.openweathermap.org/data/2.5/weather?q='' @ city)
       = Inr (Document None)"
    using that by (simp add: openWeatherMap_temperature_def field_def)
  have b: "weatherUnderground_temperature net apiKey city
         = Returns (fadd fzero (float64_of_decimal 27315 2), None)"
    if "get_wunderground net
         (''http://api.wunderground.com/api/'' @ apiKey @ ''/conditions/q/'' @ city @ ''.json'')
       = Inr (Document None)"
    using that by (simp add: weatherUnderground_temperature_def field_def del: fadd.simps)
  have c: "fadd fzero (float64_of_decimal 27315 2) = Finite False 4805305618032230 (- 44)"
    by (simp only: kelvin_273_15_bits sum_273_15)
  show ?thesis
    using a b c openWeatherMap_error [of net city t err]
      weatherUnderground_error [of net apiKey city t err]
    by blast
qed

theorem missing_temperature_is_zero_witness:
  "get_openweathermap unknown_city_net (''http://api.openweathermap.org/data/2.5/weather?q='' @ ''Atlantis'')
     = Inr (Document None)
   \<and> openWeatherMap_temperature unknown_city_net ''Atlantis'' = Returns (fzero, None)
   \<and> get_wunderground unknown_city_net
        (''http://api.wunderground.com/api/'' @ ''wu-key'' @ ''/conditions/q/'' @ ''Atlantis'' @ ''.json'')
     = Inr (Document None)
   \<and> weatherUnderground_temperature unknown_city_net ''wu-key'' ''Atlantis''
     = Returns (Finite False 4805305618032230 (- 44), None)
   \<and> get_openweathermap offline_net (''http://api.openweathermap.org/data/2.5/weather?q='' @ ''Oslo'')
     = Inl (Error ''dial tcp: no route to host'')
   \<and> openWeatherMap_temperature offline_net ''Oslo''
     = Returns (fzero, Some (Error ''dial tcp: no route to host''))"
proof -
  have g1: "get_openweathermap unknown_city_net
      (''http://api.openweathermap.org/data/2.5/weather?q='' @ ''Atlantis'') = Inr (Document None)"
    and g2: "get_wunderground unknown_city_net
        (''http://api.wunderground.com/api/'' @ ''wu-key'' @ ''/conditions/q/'' @ ''Atlantis'' @ ''.json'')
       = Inr (Document None)"
    by (simp_all add: unknown_city_net_def)
  have g3: "get_openweathermap offline_net (''http://api.openweathermap.org/data/2.5/weather?q='' @ ''Oslo'')
     = Inl (Error ''dial tcp: no route to host'')"
    by (simp add: offline_net_def)
  from missing_temperature_is_zero [of unknown_city_net "''Atlantis''" "''wu-key''"] g1 g2
  have u: "openWeatherMap_temperature unknown_city_net ''Atlantis'' = Returns (fzero, None)"
    "weatherUnderground_temperature unknown_city_net ''wu-key'' ''Atlantis''
       = Returns (Finite False 4805305618032230 (- 44), None)"
    by simp_all
  from missing_temperature_is_zero [of offline_net "''Oslo''" _ fzero "Error ''dial tcp: no route to host''"] g3
  have v: "openWeatherMap_temperature offline_net ''Oslo''
     = Returns (fzero, Some (Error ''dial tcp: no route to host''))"
    by simp
  show ?thesis using g1 g2 g3 u v by blast
qed

section \<open>The order of arrival\<close>

text \<open>
  Claim C8 says that the returned average is the same for every order in which the
  same temperatures arrive. The sum is a float64 sum taken in the order of arrival, and
  float64 addition is not associative. Three providers that report \<open>0.1\<close>, \<open>0.2\<close> and
  \<open>0.3\<close>: when the outcomes arrive in this order the call returns
  \<open>0.20000000000000004\<close>, when they arrive in the opposite order it returns
  \<open>0.19999999999999998\<close>.
\<close>

theorem arrival_order_counterexample:
  "multiWeatherProvider_temperature [fixed kelvin_0_1, fixed kelvin_0_2, fixed kelvin_0_3] ''Oslo''
       [Publish 0, Publish 1, Publish 2, RecvTemp 0, RecvTemp 0, RecvTemp 0, Return]
     = Some (Finite False 7205759403792795 (- 55), None)
   \<and> multiWeatherProvider_temperature [fixed kelvin_0_1, fixed kelvin_0_2, fixed kelvin_0_3] ''Oslo''
       [Publish 2, Publish 1, Publish 0, RecvTemp 0, RecvTemp 0, RecvTemp 0, Return]
     = Some (Finite False 7205759403792793 (- 55), None)"
proof -
  let ?w = "[fixed kelvin_0_1, fixed kelvin_0_2, fixed kelvin_0_3]"
  have len: "length ?w = 3" by simp
  have n: "float64_of_nat (length ?w) = Finite False 6755399441055744 (- 51)"
    unfolding len by (rule float64_of_nat_3)
  have a: "fdiv (fadd (fadd (fadd fzero kelvin_0_1) kelvin_0_2) kelvin_0_3)
               (Finite False 6755399441055744 (- 51))
             = Finite False 7205759403792795 (- 55)"
    unfolding kelvin_0_1_bits kelvin_0_2_bits kelvin_0_3_bits
    by (simp only: sum_0_1 sum_0_1_0_2 sum_0_1_0_2_0_3 average_0_1_0_2_0_3)
  have b: "fdiv (fadd (fadd (fadd fzero kelvin_0_3) kelvin_0_2) kelvin_0_1)
               (Finite False 6755399441055744 (- 51))
             = Finite False 7205759403792793 (- 55)"
    unfolding kelvin_0_1_bits kelvin_0_2_bits kelvin_0_3_bits
    by (simp only: sum_0_3 sum_0_3_0_2 sum_0_3_0_2_0_1 average_0_3_0_2_0_1)
  have "multiWeatherProvider_temperature ?w ''Oslo''
       [Publish 0, Publish 1, Publish 2, RecvTemp 0, RecvTemp 0, RecvTemp 0, Return]
     = Some (fdiv (fadd (fadd (fadd fzero kelvin_0_1) kelvin_0_2) kelvin_0_3) (float64_of_nat (length ?w)), None)"
    by (simp add: multiWeatherProvider_temperature_def run_defs del: fadd.simps fdiv.simps)
  moreover have "multiWeatherProvider_temperature ?w ''Oslo''
       [Publish 2, Publish 1, Publish 0, RecvTemp 0, RecvTemp 0, RecvTemp 0, Return]
     = Some (fdiv (fadd (fadd (fadd fzero kelvin_0_3) kelvin_0_2) kelvin_0_1) (float64_of_nat (length ?w)), None)"
    by (simp add: multiWeatherProvider_temperature_def run_defs del: fadd.simps fdiv.simps)
  ultimately show ?thesis unfolding n a b by simp
qed

text \<open>
  Claim C8 as amended. A call that returns a \<open>nil\<close> error returns the float64 sum of
  the temperatures its selects received, added from \<open>0.0\<close> in the order of their
  arrival, divided by \<open>float64(len(w))\<close>: the divisor does not depend on the order,
  and two calls that receive the same temperatures in the same order return the same
  value. Two calls that receive the same temperatures in different orders return the
  same value when they receive at most two (float64 addition is commutative); from
  three temperatures on the results can differ, as above.
\<close>

theorem average_of_arrival_sequence:
  assumes "exec sched1 (start w city) = Some s1" and "returned s1 = Some (v1, None)"
    and "exec sched2 (start w city) = Some s2" and "returned s2 = Some (v2, None)"
  shows "v1 = fdiv (foldl fadd fzero (temps_of (seen s1))) (float64_of_nat (length w))
       \<and> v2 = fdiv (foldl fadd fzero (temps_of (seen s2))) (float64_of_nat (length w))
       \<and> (temps_of (seen s1) = temps_of (seen s2) \<longrightarrow> v1 = v2)
       \<and> (mset (temps_of (seen s1)) = mset (temps_of (seen s2)) \<and> length (temps_of (seen s1)) \<le> 2
            \<and> (\<forall>t\<in>set (temps_of (seen s1)). canonical t) \<longrightarrow> v1 = v2)"
proof -
  have a: "v1 = fdiv (foldl fadd fzero (temps_of (seen s1))) (float64_of_nat (length w))"
    using loop_state [OF assms(1)] assms(2) by auto
  have b: "v2 = fdiv (foldl fadd fzero (temps_of (seen s2))) (float64_of_nat (length w))"
    using loop_state [OF assms(3)] assms(4) by auto
  have c: "v1 = v2" if "temps_of (seen s1) = temps_of (seen s2)"
    using a b that by simp
  have d: "v1 = v2"
    if "mset (temps_of (seen s1)) = mset (temps_of (seen s2))" "length (temps_of (seen s1)) \<le> 2"
      "\<forall>t\<in>set (temps_of (seen s1)). canonical t"
    using a b short_sums_commute [OF that] by simp
  show ?thesis using a b c d by blast
qed

theorem average_of_arrival_sequence_witness:
  "\<exists>s1 s2 v1 v2.
      exec [Publish 0, Publish 1, RecvTemp 30, RecvTemp 2, TimerFires, Return]
        (start [fixed kelvin_300_0, fixed kelvin_298_5, fixed kelvin_301_5] ''Oslo'') = Some s1
    \<and> returned s1 = Some (v1, None)
    \<and> exec [Publish 1, RecvTemp 12, TimerFires, Publish 0, RecvTemp 700, Return]
        (start [fixed kelvin_300_0, fixed kelvin_298_5, fixed kelvin_301_5] ''Oslo'') = Some s2
    \<and> returned s2 = Some (v2, None)
    \<and> temps_of (seen s1) = [kelvin_300_0, kelvin_298_5]
    \<and> temps_of (seen s2) = [kelvin_298_5, kelvin_300_0]
    \<and> canonical kelvin_300_0 \<and> canonical kelvin_298_5
    \<and> v1 = v2 \<and> v1 = Finite False 7019282231721984 (- 45)"
proof -
  let ?w = "[fixed kelvin_300_0, fixed kelvin_298_5, fixed kelvin_301_5]"
  let ?a = "[Publish 0, Publish 1, RecvTemp 30, RecvTemp 2, TimerFires, Return]"
  let ?b = "[Publish 1, RecvTemp 12, TimerFires, Publish 0, RecvTemp 700, Return]"
  have "\<exists>s v. exec ?a (start ?w ''Oslo'') = Some s \<and> returned s = Some (v, None)
      \<and> temps_of (seen s) = [kelvin_300_0, kelvin_298_5]"
    by (simp add: run_defs del: fadd.simps fdiv.simps)
  then obtain s1 v1 where s1: "exec ?a (start ?w ''Oslo'') = Some s1" "returned s1 = Some (v1, None)"
      "temps_of (seen s1) = [kelvin_300_0, kelvin_298_5]" by blast
  have "\<exists>s v. exec ?b (start ?w ''Oslo'') = Some s \<and> returned s = Some (v, None)
      \<and> temps_of (seen s) = [kelvin_298_5, kelvin_300_0]"
    by (simp add: run_defs del: fadd.simps fdiv.simps)
  then obtain s2 v2 where s2: "exec ?b (start ?w ''Oslo'') = Some s2" "returned s2 = Some (v2, None)"
      "temps_of (seen s2) = [kelvin_298_5, kelvin_300_0]" by blast
  have can: "canonical kelvin_300_0" "canonical kelvin_298_5"
    by (simp_all add: kelvin_300_0_bits kelvin_298_5_bits canonical_def)
  note t = average_of_arrival_sequence [OF s1(1,2) s2(1,2)]
  from t have imp: "mset (temps_of (seen s1)) = mset (temps_of (seen s2))
      \<and> length (temps_of (seen s1)) \<le> 2 \<and> (\<forall>t\<in>set (temps_of (seen s1)). canonical t)
      \<longrightarrow> v1 = v2" by blast
  have hyp: "mset (temps_of (seen s1)) = mset (temps_of (seen s2))
      \<and> length (temps_of (seen s1)) \<le> 2 \<and> (\<forall>t\<in>set (temps_of (seen s1)). canonical t)"
    unfolding s1(3) s2(3) using can by simp
  from imp hyp have eq: "v1 = v2" by blast
  have len: "length ?w = 3" by simp
  have n: "float64_of_nat (length ?w) = Finite False 6755399441055744 (- 51)"
    unfolding len by (rule float64_of_nat_3)
  have "v1 = fdiv (foldl fadd fzero [kelvin_300_0, kelvin_298_5]) (float64_of_nat (length ?w))"
    using t s1(3) by simp
  also have "\<dots> = fdiv (foldl fadd fzero [kelvin_300_0, kelvin_298_5]) (Finite False 6755399441055744 (- 51))"
    unfolding n ..
  also have "\<dots> = Finite False 7019282231721984 (- 45)"
    unfolding kelvin_300_0_bits kelvin_298_5_bits foldl.simps
    by (simp only: sum_300_0 sum_598_5 average_199_5)
  finally have val: "v1 = Finite False 7019282231721984 (- 45)" .
  show ?thesis using s1 s2 can eq val by blast
qed

section \<open>No goroutine blocks on its send\<close>

text \<open>
  Claim C9. In every state a call can reach, both channels have capacity \<open>len(w)\<close>.
  Goroutine \<open>j\<close> sends at most once in any run: once it has, it is finished and has no
  further step. While it has not, and the process has not crashed, neither channel is
  full, so its step can be taken: it either panics inside the provider or sends
  exactly one outcome and finishes. This holds in every reachable state, also after
  the call itself has returned early on an error.
\<close>

theorem producers_never_block:
  assumes "exec sched (start w city) = Some s" and "j < length w"
  shows "cap (temps s) = length w \<and> cap (errs s) = length w
       \<and> count_list sched (Publish j) \<le> 1
       \<and> (tasks s ! j = Finished \<longrightarrow> count_list sched (Publish j) = 1 \<and> step s (Publish j) = None)
       \<and> (tasks s ! j \<noteq> Finished \<and> \<not> crashed s \<longrightarrow>
            length (buf (temps s)) < cap (temps s) \<and> length (buf (errs s)) < cap (errs s)
            \<and> (\<exists>s'. step s (Publish j) = Some s'
                  \<and> (crashed s' \<or>
                      (tasks s' ! j = Finished
                       \<and> length (buf (temps s')) + length (buf (errs s'))
                           = Suc (length (buf (temps s)) + length (buf (errs s)))))))"
proof -
  note fr = frame [OF assms(1)]
  note po = publishes_once [OF assms]
  have a: "step s (Publish j) = None" if "tasks s ! j = Finished"
    using that by (simp add: step_def publish_def)
  have b: "length (buf (temps s)) < cap (temps s) \<and> length (buf (errs s)) < cap (errs s)
            \<and> (\<exists>s'. step s (Publish j) = Some s'
                  \<and> (crashed s' \<or>
                      (tasks s' ! j = Finished
                       \<and> length (buf (temps s')) + length (buf (errs s'))
                           = Suc (length (buf (temps s)) + length (buf (errs s))))))"
    if run: "tasks s ! j \<noteq> Finished" "\<not> crashed s"
  proof -
    have j: "j < length (tasks s)" using fr assms(2) by simp
    note R = running_update [OF j run(1)]
    note acc = accounting [OF assms(1)]
    have capt: "cap (temps s) = length w" and cape: "cap (errs s) = length w"
      using fr by simp_all
    have room: "length (buf (temps s)) < cap (temps s)" "length (buf (errs s)) < cap (errs s)"
      unfolding capt cape using acc R by linarith+
    obtain p where p: "tasks s ! j = Running p"
      using run(1) by (cases "tasks s ! j") auto
    have "\<exists>s'. step s (Publish j) = Some s'
                  \<and> (crashed s' \<or>
                      (tasks s' ! j = Finished
                       \<and> length (buf (temps s')) + length (buf (errs s'))
                           = Suc (length (buf (temps s)) + length (buf (errs s)))))"
    proof (cases "p (city_arg s)")
      case (Panics msg)
      then show ?thesis using p j run(2) by (simp add: step_def publish_def)
    next
      case (Returns r)
      show ?thesis
      proof (cases "snd r")
        case None
        then show ?thesis using Returns p j run(2) room
          by (simp add: step_def publish_def send_def)
      next
        case (Some err)
        then show ?thesis using Returns p j run(2) room
          by (simp add: step_def publish_def send_def)
      qed
    qed
    then show ?thesis using room by blast
  qed
  show ?thesis using fr po a b by blast
qed

theorem producers_never_block_witness:
  "\<exists>s s'. exec [Publish 1, RecvErr 3, Publish 0]
             (start [fixed kelvin_300_0, failing (Error ''503 Service Unavailable''), fixed kelvin_298_5]
                ''Oslo'') = Some s
     \<and> (2::nat) < length [fixed kelvin_300_0, failing (Error ''503 Service Unavailable''), fixed kelvin_298_5]
     \<and> returned s = Some (fzero, Some (Error ''503 Service Unavailable''))
     \<and> tasks s ! 2 \<noteq> Finished \<and> \<not> crashed s
     \<and> cap (temps s) = 3 \<and> length (buf (temps s)) < cap (temps s)
     \<and> step s (Publish 2) = Some s' \<and> tasks s' ! 2 = Finished
     \<and> buf (temps s') = [kelvin_300_0, kelvin_298_5]
     \<and> tasks s ! 0 = Finished \<and> count_list [Publish 1, RecvErr 3, Publish 0] (Publish 0) = 1
     \<and> step s (Publish 0) = None"
proof -
  let ?w = "[fixed kelvin_300_0, failing (Error ''503 Service Unavailable''), fixed kelvin_298_5]"
  let ?sched = "[Publish 1, RecvErr 3, Publish 0]"
  have "\<exists>s s'. exec ?sched (start ?w ''Oslo'') = Some s
      \<and> returned s = Some (fzero, Some (Error ''503 Service Unavailable''))
      \<and> tasks s ! 2 \<noteq> Finished \<and> \<not> crashed s \<and> tasks s ! 0 = Finished
      \<and> step s (Publish 2) = Some s' \<and> tasks s' ! 2 = Finished
      \<and> buf (temps s') = [kelvin_300_0, kelvin_298_5]"
    by (simp add: run_defs)
  then obtain s s' where s: "exec ?sched (start ?w ''Oslo'') = Some s"
      "returned s = Some (fzero, Some (Error ''503 Service Unavailable''))"
      "tasks s ! 2 \<noteq> Finished" "\<not> crashed s" "tasks s ! 0 = Finished"
      "step s (Publish 2) = Some s'" "tasks s' ! 2 = Finished"
      "buf (temps s') = [kelvin_300_0, kelvin_298_5]"
    by blast
  have l2: "(2::nat) < length ?w" and l0: "(0::nat) < length ?w" by simp_all
  note t2 = producers_never_block [OF s(1) l2]
  note t0 = producers_never_block [OF s(1) l0]
  have c: "cap (temps s) = 3 \<and> length (buf (temps s)) < cap (temps s)"
    using t2 s(3,4) by simp
  have z: "count_list ?sched (Publish 0) = 1 \<and> step s (Publish 0) = None"
    using t0 s(5) by simp
  show ?thesis using s l2 c z by blast
qed

section \<open>The provider list is built once and never changed\<close>

text \<open>
  Claim C10. When \<open>getMultiWeatherProvider\<close> returns a \<open>nil\<close> error, the list it
  returns holds exactly three providers: openWeatherMap, weatherUnderground and
  forecastIo with the keys of the configuration file. In every state a call on that
  list can reach, and after every further step, the receiver is still that list, and a
  call that returns a \<open>nil\<close> error has divided by \<open>float64(3)\<close>.
\<close>

theorem adapter_list_fixed:
  assumes "getMultiWeatherProvider fs net confFile = (mw, None)"
    and "exec sched (start mw city) = Some s"
  shows "length mw = 3
       \<and> (\<exists>c. fs confFile = Inr (Document c)
              \<and> mw = [openWeatherMap_temperature net,
                       weatherUnderground_temperature net (WeatherUnderground_ApiKey c),
                       forecastIo_temperature net (ForecastIo_ApiKey c)])
       \<and> providers s = mw
       \<and> (\<forall>c s'. step s c = Some s' \<longrightarrow> providers s' = mw)
       \<and> (\<forall>v. returned s = Some (v, None) \<longrightarrow> v = fdiv (loop_sum s) (float64_of_nat 3))"
proof -
  have mw: "\<exists>c. fs confFile = Inr (Document c)
              \<and> mw = [openWeatherMap_temperature net,
                       weatherUnderground_temperature net (WeatherUnderground_ApiKey c),
                       forecastIo_temperature net (ForecastIo_ApiKey c)]"
    using assms(1) by (auto simp: getMultiWeatherProvider_def split: sum.splits body.splits)
  then have len: "length mw = 3" by auto
  have p: "providers s = mw" using frame [OF assms(2)] by simp
  have q: "providers s' = mw" if "step s c = Some s'" for c s'
    using step_providers [OF that] p by simp
  have r: "v = fdiv (loop_sum s) (float64_of_nat 3)" if "returned s = Some (v, None)" for v
    using loop_state [OF assms(2)] that len by auto
  show ?thesis using mw len p q r by blast
qed

theorem adapter_list_fixed_witness:
  "\<exists>s s'. getMultiWeatherProvider example_files unknown_city_net ''conf.json''
        = ([openWeatherMap_temperature unknown_city_net,
            weatherUnderground_temperature unknown_city_net ''wu-key'',
            forecastIo_temperature unknown_city_net ''fio-key''], None)
     \<and> exec [Publish 0, RecvTemp 350, Publish 1]
          (start [openWeatherMap_temperature unknown_city_net,
                  weatherUnderground_temperature unknown_city_net ''wu-key'',
                  forecastIo_temperature unknown_city_net ''fio-key''] ''Atlantis'') = Some s
     \<and> providers s = [openWeatherMap_temperature unknown_city_net,
                      weatherUnderground_temperature unknown_city_net ''wu-key'',
                      forecastIo_temperature unknown_city_net ''fio-key'']
     \<and> step s (RecvTemp 20) = Some s'
     \<and> providers s' = [openWeatherMap_temperature unknown_city_net,
                       weatherUnderground_temperature unknown_city_net ''wu-key'',
                       forecastIo_temperature unknown_city_net ''fio-key'']"
proof -
  let ?mw = "[openWeatherMap_temperature unknown_city_net,
              weatherUnderground_temperature unknown_city_net ''wu-key'',
              forecastIo_temperature unknown_city_net ''fio-key'']"
  have mw: "getMultiWeatherProvider example_files unknown_city_net ''conf.json'' = (?mw, None)"
    by (simp add: getMultiWeatherProvider_def example_files_def)
  have "\<exists>s s'. exec [Publish 0, RecvTemp 350, Publish 1] (start ?mw ''Atlantis'') = Some s
      \<and> step s (RecvTemp 20) = Some s'"
    by (simp add: call_defs unknown_city_openWeatherMap unknown_city_weatherUnderground)
  then obtain s s' where s: "exec [Publish 0, RecvTemp 350, Publish 1] (start ?mw ''Atlantis'') = Some s"
      "step s (RecvTemp 20) = Some s'" by blast
  from adapter_list_fixed [OF mw s(1)] s mw show ?thesis by blast
qed

end
